theory Spec2Isabelle
  imports Main "HOL-Library.AList"
begin

unbundle bit_operations_syntax

section \<open>Values, objects and the world\<close>

text \<open>
  The program is JavaScript: every value is a primitive or a reference to an object, and
  the claims are about object identity, so objects live in an explicit store. A value is
  one of the primitives or an address into the store. Numbers are the integer-valued ones
  (\<open>JNum\<close>) and \<open>JNaN\<close>; function values and symbols are not values of the model. The store
  holds the own properties of the objects, not what they inherit.
\<close>

type_synonym addr = nat

datatype val = JUndefined | JNull | JBool bool | JNum int | JNaN | JStr string | JRef addr

text \<open>What \<open>if (v)\<close>, \<open>!v\<close>, \<open>a && b\<close> and \<open>a || b\<close> test.\<close>

fun truthy :: "val \<Rightarrow> bool" where
  "truthy JUndefined = False"
| "truthy JNull = False"
| "truthy (JBool b) = b"
| "truthy (JNum n) = (n \<noteq> 0)"
| "truthy JNaN = False"
| "truthy (JStr s) = (s \<noteq> [])"
| "truthy (JRef a) = True"

text \<open>
  An object is a plain object (\<open>{}\<close>) or a handle made by the audio engine. Every object
  carries its own enumerable properties in insertion order.
\<close>

datatype kind = Plain | GainNode | PannerNode | BufferSourceNode | AudioBuffer

datatype obj = Obj (kind: kind) (props: "(string \<times> val) list")

text \<open>
  \<open>TypeError\<close> is the exception of the program. \<open>Unmodelled\<close> is not one: a computation ends
  in \<open>Unmodelled\<close> at the point where the embedding does not follow the program, which is
  where a read could find a member on a prototype chain, where an assignment goes to the
  key \<open>__proto__\<close>, and where a number that is not a safe integer is made a key. Nothing is
  said of what the program does from there.
\<close>

datatype error = TypeError | Unmodelled

text \<open>
  Modelled from the spec: the audio engine (the capability context of the spec's section 6:
  gain-node creation and output connection, buffer-source creation, connection and start,
  panner creation with position, orientation and cone setters, buffer decode with a success
  and a failure callback, listener position) is not part of the repository. Each call the
  program makes on the engine is recorded, in order, with the arguments it was given; the
  engine accepts every argument. \<open>DecodeAudioData bytes table id\<close> stands for the call
  \<open>decodeAudioData(buff, audioDecodedSuccess, audioDecodedFailed)\<close>: the two callbacks are
  the closures over the variables \<open>audioBuffers\<close> (\<open>table\<close>) and \<open>id\<close>.
\<close>

datatype target = Destination | Node val

datatype event =
    CreateGain addr
  | SetGainValue addr val
  | Connect addr target
  | CreateBufferSource addr
  | SetBuffer addr val
  | Start addr val
  | CreatePanner addr
  | SetPosition addr val val val
  | SetOrientation addr val val val
  | ConeInnerAngle addr val
  | ConeOuterAngle addr val
  | ConeOuterGain addr val
  | ListenerSetPosition val val val
  | DecodeAudioData "nat list" val val
  | ConsoleLog string val

text \<open>
  A monad (the wrapper of the spec) holds the value it was made from and its own \<open>bind\<close>:
  the one \<open>unit\<close> installs, which delivers the value to a function, or the one the modifier
  of \<open>audioMonad\<close> puts in its place, which returns the monad.
\<close>

datatype bindfn = Deliver | ReturnSelf

datatype monad = Monad (mvalue: val) (mbind: bindfn)

text \<open>
  The world: the store of objects (an address is an index, a new object goes at the end),
  whether \<open>audioContext\<close> is an engine or \<open>undefined\<close>, the engine calls made so far, and
  the monads made so far.
\<close>

record world =
  heap :: "obj list"
  audioContext :: bool
  trace :: "event list"
  monads :: "monad list"

text \<open>
  A computation takes the world and returns the world it leaves, with the value it returns
  or the exception it throws.
\<close>

type_synonym 'a js = "world \<Rightarrow> (error + 'a) \<times> world"

definition ret :: "'a \<Rightarrow> 'a js" where
  "ret x w = (Inr x, w)"

definition throw :: "error \<Rightarrow> 'a js" where
  "throw e w = (Inl e, w)"

definition bnd :: "'a js \<Rightarrow> ('a \<Rightarrow> 'b js) \<Rightarrow> 'b js" where
  "bnd f g w = (case f w of (Inl e, w') \<Rightarrow> (Inl e, w') | (Inr x, w') \<Rightarrow> g x w')"

definition emit :: "event \<Rightarrow> unit js" where
  "emit e w = (Inr (), w\<lparr>trace := trace w @ [e]\<rparr>)"

section \<open>Property access\<close>

function show_nat :: "nat \<Rightarrow> string" where
  "show_nat n = (if n < 10 then [''0123456789'' ! n]
     else show_nat (n div 10) @ [''0123456789'' ! (n mod 10)])"
  by pat_completeness auto
termination
  by (relation "measure id") auto

declare show_nat.simps [simp del]

text \<open>
  The own enumerable properties of a value, as \<open>for (prop in o)\<close> with the
  \<open>hasOwnProperty\<close> filter visits them: those of the object, the characters of a string
  under their indices, none for the other primitives.
\<close>

definition own :: "world \<Rightarrow> val \<Rightarrow> (string \<times> val) list" where
  "own w v = (case v of
       JRef a \<Rightarrow> (if a < length (heap w) then props (heap w ! a) else [])
     | JStr s \<Rightarrow> map (\<lambda>i. (show_nat i, JStr [s ! i])) [0..<length s]
     | _ \<Rightarrow> [])"

text \<open>
  The order in which \<open>for (prop in o)\<close> visits the own properties: the keys that are array
  indices (the decimal numerals below \<open>2^32 - 1\<close>) in ascending order, then the other keys
  in the order in which they were added.
\<close>

definition number_of :: "string \<Rightarrow> nat" where
  "number_of k = foldl (\<lambda>n c. 10 * n + (of_char c - 48)) 0 k"

definition is_index :: "string \<Rightarrow> bool" where
  "is_index k = (k \<noteq> [] \<and> (\<forall>c\<in>set k. c \<in> set ''0123456789'')
     \<and> (hd k \<noteq> CHR ''0'' \<or> k = ''0'') \<and> number_of k < 4294967295)"

definition enum_order :: "string list \<Rightarrow> string list" where
  "enum_order ks = sort_key number_of (filter is_index ks) @ filter (\<lambda>k. \<not> is_index k) ks"

definition keys :: "world \<Rightarrow> val \<Rightarrow> string list" where
  "keys w v = enum_order (map fst (own w v))"

text \<open>
  The own property \<open>k\<close> of a value, \<open>undefined\<close> when it has none; a string has its
  \<open>length\<close>.
\<close>

definition get :: "world \<Rightarrow> val \<Rightarrow> string \<Rightarrow> val" where
  "get w v k = (case map_of (own w v) k of
       Some x \<Rightarrow> x
     | None \<Rightarrow> (case v of
         JStr s \<Rightarrow> (if k = ''length'' then JNum (int (length s)) else JUndefined)
       | _ \<Rightarrow> JUndefined))"

definition nullish :: "val \<Rightarrow> bool" where
  "nullish v = (v = JUndefined \<or> v = JNull)"

definition kind_at :: "world \<Rightarrow> addr \<Rightarrow> kind" where
  "kind_at w a = (if a < length (heap w) then kind (heap w ! a) else Plain)"

text \<open>
  The names of the members every object inherits from \<open>Object.prototype\<close>, and the names
  of the fields of a state, which no prototype of a value of the model has.
\<close>

definition object_members :: "string list" where
  "object_members = [''constructor'', ''hasOwnProperty'', ''isPrototypeOf'',
     ''propertyIsEnumerable'', ''toLocaleString'', ''toString'', ''valueOf'', ''__proto__'',
     ''__defineGetter__'', ''__defineSetter__'', ''__lookupGetter__'', ''__lookupSetter__'']"

definition state_fields :: "string list" where
  "state_fields = [''locations'', ''sources'', ''masterGain'', ''audioBuffers'', ''panners'']"

text \<open>
  Whether a read \<open>v[k]\<close> that finds no own property could find an inherited member: in a
  plain object under the names of \<open>Object.prototype\<close>; in an engine handle and in a
  primitive, whose prototypes are not part of the model, under every name but those of the
  fields of a state.
\<close>

definition inherits :: "world \<Rightarrow> val \<Rightarrow> string \<Rightarrow> bool" where
  "inherits w v k = (k \<notin> set state_fields \<and> (case v of
       JRef a \<Rightarrow> kind_at w a \<noteq> Plain \<or> k \<in> set object_members
     | JStr s \<Rightarrow> k \<noteq> ''length''
     | _ \<Rightarrow> True))"

text \<open>
  \<open>v[k]\<close>: a \<open>TypeError\<close> on \<open>undefined\<close> and \<open>null\<close>, the own property when there is
  one, \<open>undefined\<close> when there is none and none can be inherited.
\<close>

definition getp :: "val \<Rightarrow> string \<Rightarrow> val js" where
  "getp v k w = (if nullish v then (Inl TypeError, w)
     else if map_of (own w v) k = None \<and> inherits w v k then (Inl Unmodelled, w)
     else (Inr (get w v k), w))"

text \<open>
  \<open>t[k] = v\<close>. The code is not in strict mode outside \<open>MONAD\<close>: an assignment to a
  property of a primitive is dropped. An assignment under \<open>__proto__\<close> can reach the setter
  every object inherits, which makes no own property.
\<close>

definition setp :: "val \<Rightarrow> string \<Rightarrow> val \<Rightarrow> unit js" where
  "setp t k v w = (if nullish t then (Inl TypeError, w) else
     (case t of
        JRef a \<Rightarrow> (if a < length (heap w)
          then (if k = ''__proto__'' then (Inl Unmodelled, w)
                else (Inr (), w\<lparr>heap := (heap w)[a := Obj (kind (heap w ! a))
                  (AList.update k v (props (heap w ! a)))]\<rparr>))
          else (Inr (), w))
      | _ \<Rightarrow> (Inr (), w)))"

text \<open>\<open>delete t[k]\<close>.\<close>

definition delp :: "val \<Rightarrow> string \<Rightarrow> unit js" where
  "delp t k w = (if nullish t then (Inl TypeError, w) else
     (case t of
        JRef a \<Rightarrow> (if a < length (heap w)
          then (Inr (), w\<lparr>heap := (heap w)[a := Obj (kind (heap w ! a))
                  (AList.delete k (props (heap w ! a)))]\<rparr>)
          else (Inr (), w))
      | _ \<Rightarrow> (Inr (), w)))"

text \<open>\<open>{}\<close>, and the objects the engine makes.\<close>

definition new_object :: "kind \<Rightarrow> val js" where
  "new_object k w = (Inr (JRef (length (heap w))), w\<lparr>heap := heap w @ [Obj k []]\<rparr>)"

text \<open>
  The property key a value is converted to in \<open>t[id]\<close>. A number is printed with all its
  digits when it is a safe integer (at most \<open>2^53\<close> in absolute value). An object is
  converted by its \<open>toString\<close>; an own property of that name is not a function, and the
  conversion throws.
\<close>

definition class_name :: "kind \<Rightarrow> string" where
  "class_name k = (case k of Plain \<Rightarrow> ''Object'' | GainNode \<Rightarrow> ''GainNode''
     | PannerNode \<Rightarrow> ''PannerNode'' | BufferSourceNode \<Rightarrow> ''AudioBufferSourceNode''
     | AudioBuffer \<Rightarrow> ''AudioBuffer'')"

definition to_key :: "val \<Rightarrow> string js" where
  "to_key v w = (case v of
       JUndefined \<Rightarrow> (Inr ''undefined'', w)
     | JNull \<Rightarrow> (Inr ''null'', w)
     | JBool b \<Rightarrow> (Inr (if b then ''true'' else ''false''), w)
     | JNum n \<Rightarrow> (if abs n \<le> 9007199254740992
         then (Inr (if n < 0 then CHR ''-'' # show_nat (nat (- n)) else show_nat (nat n)), w)
         else (Inl Unmodelled, w))
     | JNaN \<Rightarrow> (Inr ''NaN'', w)
     | JStr s \<Rightarrow> (Inr s, w)
     | JRef a \<Rightarrow> (if map_of (own w v) ''toString'' \<noteq> None then (Inl TypeError, w)
         else (Inr (''[object '' @ class_name (kind_at w a) @ '']''), w)))"

text \<open>
  \<open>o.hasOwnProperty(k)\<close>: an own property named \<open>hasOwnProperty\<close> hides the one
  every object inherits, and is not a function.
\<close>

fun is_ref :: "val \<Rightarrow> bool" where
  "is_ref (JRef a) = True"
| "is_ref v = False"

fun is_str :: "val \<Rightarrow> bool" where
  "is_str (JStr s) = True"
| "is_str v = False"

definition hasOwnProperty :: "val \<Rightarrow> string \<Rightarrow> bool js" where
  "hasOwnProperty o' k w =
     (if nullish o' \<or> (is_ref o' \<and> map_of (own w o') ''hasOwnProperty'' \<noteq> None)
      then (Inl TypeError, w)
      else (Inr (map_of (own w o') k \<noteq> None \<or> (is_str o' \<and> k = ''length'')), w))"

text \<open>
  \<open>for (k in o) { if (o.hasOwnProperty(k)) { body } }\<close> over the keys \<open>ks\<close> that \<open>o\<close> has
  when the loop starts. None of the loops of the program adds a property to the object it
  enumerates or removes one from it.
\<close>

fun for_in :: "val \<Rightarrow> string list \<Rightarrow> (string \<Rightarrow> unit js) \<Rightarrow> unit js" where
  "for_in o' [] body w = (Inr (), w)"
| "for_in o' (k # ks) body w =
     (case hasOwnProperty o' k w of
        (Inl e, w') \<Rightarrow> (Inl e, w')
      | (Inr b, w') \<Rightarrow>
          (case (if b then body k w' else (Inr (), w')) of
             (Inl e, w'') \<Rightarrow> (Inl e, w'')
           | (Inr u, w'') \<Rightarrow> for_in o' ks body w''))"

definition for_own :: "val \<Rightarrow> (string \<Rightarrow> unit js) \<Rightarrow> unit js" where
  "for_own o' body w = for_in o' (keys w o') body w"

text \<open>
  \<open>v.name(...)\<close> on an engine handle: the address of the handle when the call reaches the
  engine's method, a \<open>TypeError\<close> when \<open>v\<close> is not an object with that method or an own
  property of that name hides it.
\<close>

definition has_method :: "kind \<Rightarrow> string \<Rightarrow> bool" where
  "has_method k name = (case k of
       GainNode \<Rightarrow> name = ''connect''
     | PannerNode \<Rightarrow> name \<in> {''connect'', ''setPosition'', ''setOrientation'',
         ''coneInnerAngle'', ''coneOuterAngle'', ''coneOuterGain''}
     | BufferSourceNode \<Rightarrow> name \<in> {''connect'', ''start''}
     | _ \<Rightarrow> False)"

definition call_method :: "val \<Rightarrow> string \<Rightarrow> addr js" where
  "call_method v name w = (case v of
       JRef a \<Rightarrow> (if a < length (heap w) \<and> has_method (kind (heap w ! a)) name
                     \<and> map_of (props (heap w ! a)) name = None
                   then (Inr a, w) else (Inl TypeError, w))
     | _ \<Rightarrow> (Inl TypeError, w))"

definition arg :: "val list \<Rightarrow> nat \<Rightarrow> val" where
  "arg args i = (if i < length args then args ! i else JUndefined)"

text \<open>\<open>v || d\<close>.\<close>

definition or_default :: "val \<Rightarrow> val \<Rightarrow> val" where
  "or_default v d = (if truthy v then v else d)"

section \<open>The transcoding of a payload\<close>

text \<open>
  \<open>data.split(',')[1]\<close>: \<open>split\<close> is a method of strings only; the second piece is
  \<open>undefined\<close> when the string has no comma.
\<close>

fun split_comma :: "string \<Rightarrow> string list" where
  "split_comma [] = [[]]"
| "split_comma (c # cs) = (if c = CHR '','' then [] # split_comma cs
     else (case split_comma cs of [] \<Rightarrow> [[c]] | x # xs \<Rightarrow> (c # x) # xs))"

definition split1 :: "val \<Rightarrow> val js" where
  "split1 data = (case data of
       JStr s \<Rightarrow> (case split_comma s of a # b # rest \<Rightarrow> ret (JStr b) | _ \<Rightarrow> ret JUndefined)
     | _ \<Rightarrow> throw TypeError)"

definition chars :: string where
  "chars = ''ABCDEFGHIJKLMNOPQRSTUVWXYZabcdefghijklmnopqrstuvwxyz0123456789+/''"

text \<open>\<open>chars.indexOf(base64[i])\<close>; \<open>base64[i]\<close> is \<open>undefined\<close> past the end.\<close>

fun index_from :: "string \<Rightarrow> char \<Rightarrow> int \<Rightarrow> int" where
  "index_from [] c i = - 1"
| "index_from (x # xs) c i = (if x = c then i else index_from xs c (i + 1))"

definition indexOf :: "string \<Rightarrow> nat \<Rightarrow> int" where
  "indexOf base64 i = (if i < length base64 then index_from chars (base64 ! i) 0 else - 1)"

definition byte :: "int \<Rightarrow> nat" where
  "byte x = nat (x mod 256)"

text \<open>The loop of \<open>base64ToArrayBuffer\<close>, four characters and three bytes a round.\<close>

function decode_from :: "string \<Rightarrow> nat \<Rightarrow> nat list" where
  "decode_from base64 i = (if i < length base64 then
       (let encoded1 = indexOf base64 i;
            encoded2 = indexOf base64 (i + 1);
            encoded3 = indexOf base64 (i + 2);
            encoded4 = indexOf base64 (i + 3)
        in byte (push_bit 2 encoded1 OR drop_bit 4 encoded2)
         # byte (push_bit 4 (encoded2 AND 15) OR drop_bit 2 encoded3)
         # byte (push_bit 6 (encoded3 AND 3) OR (encoded4 AND 63))
         # decode_from base64 (i + 4))
     else [])"
  by pat_completeness auto
termination
  by (relation "measure (\<lambda>(base64, i). length base64 - i)") auto

declare decode_from.simps [simp del]

text \<open>
  The buffer has \<open>base64.length * 0.75\<close> bytes, less one for each of the two last
  characters that is \<open>=\<close>, cut to a whole number; a write past its end is dropped.
\<close>

definition padding :: "string \<Rightarrow> nat" where
  "padding base64 = (let len = length base64 in
     if 0 < len \<and> base64 ! (len - 1) = CHR ''=''
     then (if 1 < len \<and> base64 ! (len - 2) = CHR ''='' then 2 else 1)
     else 0)"

definition base64ToArrayBuffer :: "val \<Rightarrow> nat list js" where
  "base64ToArrayBuffer base64 = (case base64 of
       JStr s \<Rightarrow> ret (take ((3 * length s - 4 * padding s) div 4) (decode_from s 0))
     | _ \<Rightarrow> throw TypeError)"

section \<open>The engine calls\<close>

definition createGain :: "val \<Rightarrow> val js" where
  "createGain volume w = (if \<not> audioContext w then (Inl TypeError, w) else
     bnd (new_object GainNode) (\<lambda>gain.
     bnd (emit (CreateGain (length (heap w)))) (\<lambda>_.
     bnd (emit (SetGainValue (length (heap w)) (or_default volume (JNum 1)))) (\<lambda>_.
     ret gain))) w)"

definition connect :: "val \<Rightarrow> target \<Rightarrow> unit js" where
  "connect node t = bnd (call_method node ''connect'') (\<lambda>a. emit (Connect a t))"

definition createMasterGain :: "val \<Rightarrow> val js" where
  "createMasterGain volume =
     bnd (createGain volume) (\<lambda>masterGain.
     bnd (connect masterGain Destination) (\<lambda>_.
     ret masterGain))"

definition createBufferSource :: "val js" where
  "createBufferSource w = (if \<not> audioContext w then (Inl TypeError, w) else
     bnd (new_object BufferSourceNode) (\<lambda>audioSource.
     bnd (emit (CreateBufferSource (length (heap w)))) (\<lambda>_.
     ret audioSource)) w)"

text \<open>\<open>audioSource.buffer = buffer\<close>.\<close>

definition set_buffer :: "val \<Rightarrow> val \<Rightarrow> unit js" where
  "set_buffer audioSource buffer = (case audioSource of
       JRef a \<Rightarrow> emit (SetBuffer a buffer)
     | _ \<Rightarrow> throw TypeError)"

definition createPanner :: "val js" where
  "createPanner w = (if \<not> audioContext w then (Inl TypeError, w) else
     bnd (new_object PannerNode) (\<lambda>panner.
     bnd (emit (CreatePanner (length (heap w)))) (\<lambda>_.
     ret panner)) w)"

definition decodeAudioData :: "nat list \<Rightarrow> val \<Rightarrow> val \<Rightarrow> unit js" where
  "decodeAudioData buff audioBuffers id' w = (if \<not> audioContext w then (Inl TypeError, w)
     else emit (DecodeAudioData buff audioBuffers id') w)"

text \<open>
  The two callbacks handed to \<open>decodeAudioData\<close>: the engine calls one of them later,
  the first with the decoded handle.
\<close>

definition audioDecodedSuccess :: "val \<Rightarrow> val \<Rightarrow> val \<Rightarrow> unit js" where
  "audioDecodedSuccess audioBuffers id' audioData =
     bnd (emit (ConsoleLog ''decoded '' id')) (\<lambda>_.
     bnd (to_key id') (\<lambda>k.
     setp audioBuffers k audioData))"

definition audioDecodedFailed :: "val \<Rightarrow> val \<Rightarrow> unit js" where
  "audioDecodedFailed audioBuffers id' =
     bnd (emit (ConsoleLog ''failed to decode audio '' id')) (\<lambda>_.
     bnd (to_key id') (\<lambda>k.
     setp audioBuffers k (JStr ''failed'')))"

section \<open>Copying a state\<close>

definition shallowCopy :: "val \<Rightarrow> val js" where
  "shallowCopy o' =
     bnd (new_object Plain) (\<lambda>newO.
     bnd (for_own o' (\<lambda>prop. bnd (getp o' prop) (\<lambda>v. setp newO prop v))) (\<lambda>_.
     ret newO))"

definition cloneData :: "val \<Rightarrow> val js" where
  "cloneData data =
     bnd (new_object Plain) (\<lambda>clone.
     bnd (getp data ''locations'') (\<lambda>l.
     bnd (if truthy l then bnd (shallowCopy l) (setp clone ''locations'') else ret ()) (\<lambda>_.
     bnd (getp data ''sources'') (\<lambda>s.
     bnd (if truthy s then bnd (shallowCopy s) (setp clone ''sources'') else ret ()) (\<lambda>_.
     bnd (getp data ''masterGain'') (\<lambda>g.
     bnd (if truthy g then setp clone ''masterGain'' g else ret ()) (\<lambda>_.
     bnd (getp data ''audioBuffers'') (\<lambda>b.
     bnd (if truthy b then bnd (shallowCopy b) (setp clone ''audioBuffers'') else ret ()) (\<lambda>_.
     ret clone)))))))))"

section \<open>The operations of audioMonad\<close>

text \<open>
  Each operation is the function handed to \<open>lift\<close> or \<open>lift_value\<close>: it takes the value
  of the monad and the arguments of the call; a parameter the call does not supply is
  \<open>undefined\<close>.
\<close>

type_synonym operation = "val \<Rightarrow> val list \<Rightarrow> val js"

definition setAudioBuffers :: operation where
  "setAudioBuffers value args = (let buffers = arg args 0 in
     bnd (cloneData value) (\<lambda>newValue.
     bnd (new_object Plain) (\<lambda>copyBuffers.
     bnd (for_own buffers (\<lambda>id'. bnd (getp buffers id') (\<lambda>v. setp copyBuffers id' v))) (\<lambda>_.
     bnd (setp newValue ''audioBuffers'' copyBuffers) (\<lambda>_.
     ret newValue)))))"

definition getAudioBuffers :: operation where
  "getAudioBuffers value args =
     bnd (new_object Plain) (\<lambda>audioBuffers.
     bnd (getp value ''audioBuffers'') (\<lambda>b.
     if truthy b then shallowCopy b else ret audioBuffers))"

definition masterGain :: operation where
  "masterGain value args = (let initialVolume = arg args 0 in
     bnd (cloneData value) (\<lambda>newValue.
     bnd (createMasterGain initialVolume) (\<lambda>g.
     bnd (setp newValue ''masterGain'' g) (\<lambda>_.
     ret newValue))))"

text \<open>\<open>value.locations[id]\<close>.\<close>

definition location_of :: "val \<Rightarrow> val \<Rightarrow> val js" where
  "location_of value id' =
     bnd (getp value ''locations'') (\<lambda>l.
     bnd (to_key id') (\<lambda>k.
     getp l k))"

text \<open>\<open>buffer && buffer !== 'pending' && buffer !== 'failed'\<close>.\<close>

definition playable :: "val \<Rightarrow> bool" where
  "playable buffer = (truthy buffer \<and> buffer \<noteq> JStr ''pending'' \<and> buffer \<noteq> JStr ''failed'')"

definition play :: operation where
  "play value args = (let id' = arg args 0; location = arg args 1 in
     bnd (getp value ''audioBuffers'') (\<lambda>b.
     bnd (if truthy b then bnd (to_key id') (getp b) else ret b) (\<lambda>buffer.
     if playable buffer then
       bnd (getp value ''masterGain'') (\<lambda>g.
       bnd (if \<not> truthy g
            then bnd (cloneData value) (\<lambda>value'.
                 bnd (createMasterGain JUndefined) (\<lambda>g'.
                 bnd (setp value' ''masterGain'' g') (\<lambda>_.
                 ret value')))
            else ret value) (\<lambda>value.
       bnd createBufferSource (\<lambda>audioSource.
       bnd (set_buffer audioSource buffer) (\<lambda>_.
       bnd (if truthy location
            then bnd (getp value ''locations'') (\<lambda>l.
                 if truthy l then bnd (to_key location) (getp l) else ret l)
            else ret location) (\<lambda>there.
       bnd (if truthy there
            then bnd (location_of value location) (\<lambda>panner.
                 bnd (connect audioSource (Node panner)) (\<lambda>_.
                 bnd (location_of value location) (\<lambda>panner.
                 bnd (getp value ''masterGain'') (\<lambda>g.
                 connect panner (Node g)))))
            else bnd (getp value ''masterGain'') (\<lambda>g.
                 connect audioSource (Node g))) (\<lambda>_.
       bnd (call_method audioSource ''start'') (\<lambda>a.
       bnd (emit (Start a (JNum 0))) (\<lambda>_.
       ret value))))))))
     else ret value)))"

definition removeSound :: operation where
  "removeSound value args = (let id' = arg args 0 in
     bnd (cloneData value) (\<lambda>newValue.
     bnd (getp newValue ''audioBuffers'') (\<lambda>b.
     bnd (if truthy b then bnd (to_key id') (delp b) else ret ()) (\<lambda>_.
     ret newValue))))"

definition sounds :: operation where
  "sounds value args = (let sounds = arg args 0 in
     bnd (cloneData value) (\<lambda>newValue.
     bnd (getp newValue ''audioBuffers'') (\<lambda>b.
     bnd (if \<not> truthy b then new_object Plain else ret b) (\<lambda>audioBuffers.
     bnd (for_own sounds (\<lambda>sound.
            bnd (setp audioBuffers sound (JStr ''pending'')) (\<lambda>_.
            bnd (getp sounds sound) (\<lambda>data.
            bnd (split1 data) (\<lambda>payload.
            bnd (base64ToArrayBuffer payload) (\<lambda>buff.
            decodeAudioData buff audioBuffers (JStr sound))))))) (\<lambda>_.
     bnd (setp newValue ''audioBuffers'' audioBuffers) (\<lambda>_.
     ret newValue))))))"

definition addSound :: operation where
  "addSound value args = (let id' = arg args 0; data = arg args 1 in
     bnd (cloneData value) (\<lambda>newValue.
     bnd (getp newValue ''audioBuffers'') (\<lambda>audioBuffers.
     bnd (to_key id') (\<lambda>k.
     bnd (setp audioBuffers k (JStr ''pending'')) (\<lambda>_.
     bnd (split1 data) (\<lambda>payload.
     bnd (base64ToArrayBuffer payload) (\<lambda>buff.
     bnd (decodeAudioData buff audioBuffers id') (\<lambda>_.
     ret newValue))))))))"

definition setPosition :: "val \<Rightarrow> val \<Rightarrow> val \<Rightarrow> val \<Rightarrow> unit js" where
  "setPosition panner x y z = bnd (call_method panner ''setPosition'') (\<lambda>a. emit (SetPosition a x y z))"

definition locate :: operation where
  "locate value args = (let id' = arg args 0; x = arg args 1; y = arg args 2; z = arg args 3;
       options = arg args 4 in
     bnd (cloneData value) (\<lambda>value.
     let x = or_default x (JNum 0); y = or_default y (JNum 0); z = or_default z (JNum 0) in
     bnd (getp value ''locations'') (\<lambda>l.
     bnd (if \<not> truthy l then bnd (new_object Plain) (setp value ''locations'') else ret ()) (\<lambda>_.
     bnd (location_of value id') (\<lambda>p.
     bnd (if \<not> truthy p
          then bnd (getp value ''locations'') (\<lambda>l.
               bnd (to_key id') (\<lambda>k.
               bnd createPanner (\<lambda>panner.
               setp l k panner)))
          else ret ()) (\<lambda>_.
     bnd (location_of value id') (\<lambda>panner.
     bnd (setPosition panner x y z) (\<lambda>_.
     bnd (if truthy options
          then for_own options (\<lambda>prop.
                 bnd (location_of value id') (\<lambda>panner.
                 bnd (getp options prop) (\<lambda>v.
                 setp panner prop v)))
          else ret ()) (\<lambda>_.
     ret value)))))))))"

definition removeLocation :: operation where
  "removeLocation value args = (let id' = arg args 0 in
     bnd (cloneData value) (\<lambda>newValue.
     bnd (getp newValue ''locations'') (\<lambda>l.
     bnd (if truthy l then bnd (to_key id') (delp l) else ret ()) (\<lambda>_.
     ret newValue))))"

definition listenAt :: operation where
  "listenAt value args = (let x = or_default (arg args 0) (JNum 0);
       y = or_default (arg args 1) (JNum 0); z = or_default (arg args 2) (JNum 0) in
     bnd (\<lambda>w. if \<not> audioContext w then (Inl TypeError, w)
               else emit (ListenerSetPosition x y z) w) (\<lambda>_.
     ret value))"

text \<open>\<open>value.panners && value.panners[id]\<close>.\<close>

definition panner_of :: "val \<Rightarrow> val \<Rightarrow> val js" where
  "panner_of value id' =
     bnd (getp value ''panners'') (\<lambda>ps.
     if truthy ps then bnd (to_key id') (getp ps) else ret ps)"

definition orient :: operation where
  "orient value args = (let id' = arg args 0; x = or_default (arg args 1) (JNum 0);
       y = or_default (arg args 2) (JNum 0); z = or_default (arg args 3) (JNum 0) in
     bnd (panner_of value id') (\<lambda>p.
     bnd (if truthy p
          then bnd (panner_of value id') (\<lambda>panner.
               bnd (call_method panner ''setOrientation'') (\<lambda>a.
               emit (SetOrientation a x y z)))
          else ret ()) (\<lambda>_.
     ret value)))"

definition cone :: operation where
  "cone value args = (let id' = arg args 0; innerAngle = or_default (arg args 1) (JNum 360);
       outerAngle = or_default (arg args 2) (JNum 360);
       outerGain = or_default (arg args 3) (JNum 0) in
     bnd (panner_of value id') (\<lambda>p.
     bnd (if truthy p \<and> id' \<noteq> JStr ''listener''
          then bnd (panner_of value id') (\<lambda>panner.
               bnd (call_method panner ''coneInnerAngle'') (\<lambda>a.
               bnd (emit (ConeInnerAngle a innerAngle)) (\<lambda>_.
               bnd (panner_of value id') (\<lambda>panner.
               bnd (call_method panner ''coneOuterAngle'') (\<lambda>a.
               bnd (emit (ConeOuterAngle a outerAngle)) (\<lambda>_.
               bnd (panner_of value id') (\<lambda>panner.
               bnd (call_method panner ''coneOuterGain'') (\<lambda>a.
               emit (ConeOuterGain a outerGain)))))))))
          else ret ()) (\<lambda>_.
     ret value)))"

section \<open>MONAD and audioMonad\<close>

text \<open>
  \<open>unit(value)\<close> makes a monad whose \<open>bind\<close> delivers the value, and lets the modifier
  change it. The modifier of \<open>audioMonad\<close> replaces \<open>bind\<close> when there is no audio
  context or the value is falsy.
\<close>

type_synonym modifier = "nat \<Rightarrow> val \<Rightarrow> world \<Rightarrow> world"

definition unit :: "modifier option \<Rightarrow> val \<Rightarrow> world \<Rightarrow> nat \<times> world" where
  "unit modifier value w = (let m = length (monads w);
       w1 = w\<lparr>monads := monads w @ [Monad value Deliver]\<rparr>
     in (m, case modifier of Some f \<Rightarrow> f m value w1 | None \<Rightarrow> w1))"

definition audio_modifier :: modifier where
  "audio_modifier m value w = (if \<not> audioContext w \<or> \<not> truthy value
     then w\<lparr>monads := (monads w)[m := Monad (mvalue (monads w ! m)) ReturnSelf]\<rparr>
     else w)"

text \<open>What a method of a monad returns: a monad, or a value that is not one.\<close>

datatype res = M nat | V val

definition monad_bind :: "nat \<Rightarrow> operation \<Rightarrow> val list \<Rightarrow> res js" where
  "monad_bind m func args w = (case mbind (monads w ! m) of
       Deliver \<Rightarrow> (case func (mvalue (monads w ! m)) args w of
                    (Inl e, w') \<Rightarrow> (Inl e, w')
                  | (Inr v, w') \<Rightarrow> (Inr (V v), w'))
     | ReturnSelf \<Rightarrow> (Inr (M m), w))"

text \<open>
  The methods \<open>unit.lift_value\<close> and \<open>unit.lift\<close> put on the prototype. A monad has
  \<open>is_monad\<close> from the prototype; another value has it when it carries the property.
\<close>

definition lift_value_method :: "operation \<Rightarrow> nat \<Rightarrow> val list \<Rightarrow> res js" where
  "lift_value_method func this args = monad_bind this func args"

definition lift_method :: "modifier option \<Rightarrow> operation \<Rightarrow> nat \<Rightarrow> val list \<Rightarrow> res js" where
  "lift_method modifier func this args =
     bnd (monad_bind this func args) (\<lambda>result w.
       case result of
         M m \<Rightarrow> (Inr (M m), w)
       | V v \<Rightarrow> (if truthy v \<and> get w v ''is_monad'' = JBool True then (Inr (V v), w)
                 else (case unit modifier v w of (m, w') \<Rightarrow> (Inr (M m), w'))))"

type_synonym prototype = "(string \<times> (nat \<Rightarrow> val list \<Rightarrow> res js)) list"

definition lift :: "modifier option \<Rightarrow> string \<Rightarrow> operation \<Rightarrow> prototype \<Rightarrow> prototype" where
  "lift modifier name func prototype = AList.update name (lift_method modifier func) prototype"

definition lift_value :: "string \<Rightarrow> operation \<Rightarrow> prototype \<Rightarrow> prototype" where
  "lift_value name func prototype = AList.update name (lift_value_method func) prototype"

text \<open>The prototype of \<open>audioMonad\<close> after the registrations of the module, in their order.\<close>

definition audio_prototype :: prototype where
  "audio_prototype = (let l = lift (Some audio_modifier) in
     l ''cone'' cone
     (l ''orient'' orient
     (l ''listenAt'' listenAt
     (l ''removeLocation'' removeLocation
     (l ''locate'' locate
     (l ''addSound'' addSound
     (l ''sounds'' sounds
     (l ''removeSound'' removeSound
     (l ''play'' play
     (l ''masterGain'' masterGain
     (lift_value ''getAudioBuffers'' getAudioBuffers
     (l ''setAudioBuffers'' setAudioBuffers []))))))))))))"

definition audioMonad :: "val \<Rightarrow> world \<Rightarrow> nat \<times> world" where
  "audioMonad value = unit (Some audio_modifier) value"

text \<open>\<open>m.name(args)\<close> for a monad of \<open>audioMonad\<close>.\<close>

definition invoke :: "nat \<Rightarrow> string \<Rightarrow> val list \<Rightarrow> res js" where
  "invoke m name args = (case map_of audio_prototype name of
       Some f \<Rightarrow> f m args
     | None \<Rightarrow> throw TypeError)"

text \<open>
  A chain \<open>m.a(...).b(...)\<close>: each call is made on what the call before it returned. A
  value that is not a monad has none of the methods.
\<close>

fun chain :: "res \<Rightarrow> (string \<times> val list) list \<Rightarrow> res js" where
  "chain r [] w = (Inr r, w)"
| "chain (M m) ((name, args) # cs) w =
     (case invoke m name args w of
        (Inl e, w') \<Rightarrow> (Inl e, w')
      | (Inr r, w') \<Rightarrow> chain r cs w')"
| "chain (V v) ((name, args) # cs) w = (Inl TypeError, w)"

section \<open>Notions used in the statements\<close>

text \<open>A name is registered when the prototype of \<open>audioMonad\<close> has a method of that name.\<close>

definition registered :: "string \<Rightarrow> bool" where
  "registered name = (map_of audio_prototype name \<noteq> None)"

text \<open>A reference denotes an object of the world when its address is in the store.\<close>

definition denotes :: "world \<Rightarrow> val \<Rightarrow> bool" where
  "denotes w v = (case v of JRef a \<Rightarrow> a < length (heap w) | _ \<Rightarrow> True)"

text \<open>The empty state \<open>{}\<close> in a world with an audio context and nothing else.\<close>

definition empty_world :: world where
  "empty_world = \<lparr>heap = [Obj Plain []], audioContext = True, trace = [], monads = []\<rparr>"

section \<open>Notions used in the proofs\<close>

definition copy_prop :: "val \<Rightarrow> nat \<Rightarrow> string \<Rightarrow> unit js" where
  "copy_prop src n p = bnd (getp src p) (\<lambda>v. setp (JRef n) p v)"

definition copy_field :: "val \<Rightarrow> val \<Rightarrow> string \<Rightarrow> unit js" where
  "copy_field data clone f =
     bnd (getp data f) (\<lambda>l. if truthy l then bnd (shallowCopy l) (setp clone f) else ret ())"

definition copy_gain :: "val \<Rightarrow> val \<Rightarrow> unit js" where
  "copy_gain data clone =
     bnd (getp data ''masterGain'') (\<lambda>g. if truthy g then setp clone ''masterGain'' g else ret ())"

definition sub_fields :: "string set" where
  "sub_fields = {''locations'', ''sources'', ''audioBuffers''}"

definition field_copied :: "world \<Rightarrow> val \<Rightarrow> (string \<times> val) list \<Rightarrow> obj list \<Rightarrow> string \<Rightarrow> bool" where
  "field_copied w d F new f =
     (if truthy (get w d f)
      then (\<exists>i<length new. map_of F f = Some (JRef (length (heap w) + 1 + i))
              \<and> map_of (props (new ! i)) = map_of (own w (get w d f)))
      else map_of F f = None)"

definition clone_shape :: "world \<Rightarrow> val \<Rightarrow> string set \<Rightarrow> (string \<times> val) list \<Rightarrow> obj list \<Rightarrow> bool" where
  "clone_shape w d fs F new =
     ((\<forall>ob\<in>set new. kind ob = Plain)
      \<and> (\<forall>f. f \<notin> fs \<longrightarrow> map_of F f = None)
      \<and> (\<forall>f\<in>fs \<inter> sub_fields. field_copied w d F new f)
      \<and> (''masterGain'' \<in> fs \<longrightarrow> map_of F ''masterGain'' =
            (if truthy (get w d ''masterGain'') then Some (get w d ''masterGain'') else None))
      \<and> (\<forall>f\<in>sub_fields. \<forall>f'\<in>sub_fields. \<forall>v. f \<noteq> f' \<longrightarrow> map_of F f = Some v \<longrightarrow> map_of F f' \<noteq> Some v))"

definition partial_clone :: "world \<Rightarrow> val \<Rightarrow> string set \<Rightarrow> world \<Rightarrow> bool" where
  "partial_clone w d fs w1 =
     (\<exists>F new. w1 = w\<lparr>heap := heap w @ Obj Plain F # new\<rparr> \<and> clone_shape w d fs F new)"

definition extended :: "world \<Rightarrow> world \<Rightarrow> bool" where
  "extended w w1 = (\<exists>F new. w1 = w\<lparr>heap := heap w @ Obj Plain F # new\<rparr> \<and> (\<forall>ob\<in>set new. kind ob = Plain))"

definition all_fields :: "string set" where
  "all_fields = {''locations'', ''sources'', ''masterGain'', ''audioBuffers''}"

definition field_ok :: "world \<Rightarrow> val \<Rightarrow> (string \<Rightarrow> string set) \<Rightarrow> (string \<times> val) list \<Rightarrow> obj list \<Rightarrow> string \<Rightarrow> bool" where
  "field_ok w d T F new f =
     ((map_of F f = None \<and> (\<forall>k. k \<notin> T f \<longrightarrow> map_of (own w (get w d f)) k = None))
      \<or> (\<exists>i<length new. map_of F f = Some (JRef (length (heap w) + 1 + i)) \<and> kind (new ! i) = Plain
            \<and> (\<forall>k. k \<notin> T f \<longrightarrow> map_of (props (new ! i)) k = map_of (own w (get w d f)) k)))"

definition gain_ok :: "world \<Rightarrow> val \<Rightarrow> (string \<times> val) list \<Rightarrow> obj list \<Rightarrow> bool" where
  "gain_ok w d F new =
     (map_of F ''masterGain'' =
        (if truthy (get w d ''masterGain'') then Some (get w d ''masterGain'') else None)
      \<or> (\<exists>i<length new. map_of F ''masterGain'' = Some (JRef (length (heap w) + 1 + i))
            \<and> kind (new ! i) = GainNode))"

definition shape :: "world \<Rightarrow> val \<Rightarrow> (string \<Rightarrow> string set) \<Rightarrow> (string \<times> val) list \<Rightarrow> obj list \<Rightarrow> bool" where
  "shape w d T F new =
     ((\<forall>f. f \<notin> all_fields \<longrightarrow> map_of F f = None)
      \<and> (\<forall>f\<in>sub_fields. field_ok w d T F new f)
      \<and> gain_ok w d F new
      \<and> (\<forall>f\<in>sub_fields. \<forall>f'\<in>sub_fields. \<forall>v. f \<noteq> f' \<longrightarrow> map_of F f = Some v \<longrightarrow> map_of F f' \<noteq> Some v))"

definition clone_world :: "world \<Rightarrow> (string \<times> val) list \<Rightarrow> obj list \<Rightarrow> event list \<Rightarrow> world" where
  "clone_world w F new es = w\<lparr>heap := heap w @ Obj Plain F # new, trace := trace w @ es\<rparr>"

definition fresh_clone :: "world \<Rightarrow> val \<Rightarrow> world \<Rightarrow> val \<Rightarrow> (string \<Rightarrow> string set) \<Rightarrow> bool" where
  "fresh_clone w s w' s' T =
     (\<exists>c. s' = JRef c \<and> length (heap w) \<le> c \<and> c < length (heap w') \<and> kind (heap w' ! c) = Plain
        \<and> (\<forall>f. f \<notin> all_fields \<longrightarrow> get w' s' f = JUndefined)
        \<and> (\<forall>f\<in>sub_fields.
              (get w' s' f = JUndefined
               \<or> (\<exists>b. get w' s' f = JRef b \<and> length (heap w) \<le> b \<and> b < length (heap w') \<and> b \<noteq> c
                     \<and> kind (heap w' ! b) = Plain))
              \<and> (\<forall>k. k \<notin> T f \<longrightarrow> map_of (own w' (get w' s' f)) k = map_of (own w (get w s f)) k))
        \<and> (get w' s' ''masterGain'' = get w s ''masterGain''
             \<or> (\<not> truthy (get w s ''masterGain'') \<and> get w' s' ''masterGain'' = JUndefined)
             \<or> (\<exists>g. get w' s' ''masterGain'' = JRef g \<and> length (heap w) \<le> g \<and> g < length (heap w')
                   \<and> kind (heap w' ! g) = GainNode)))"

definition state_in :: "world \<Rightarrow> val \<Rightarrow> bool" where
  "state_in w s = (denotes w s \<and> denotes w (get w s ''locations'') \<and> denotes w (get w s ''sources'')
     \<and> denotes w (get w s ''audioBuffers''))"

definition key_set :: "world \<Rightarrow> val \<Rightarrow> string set" where
  "key_set w v = {k. fst (to_key v w) = Inr k}"

definition remove_entry :: "string \<Rightarrow> operation" where
  "remove_entry f value args = (let id' = arg args 0 in
     bnd (cloneData value) (\<lambda>newValue.
     bnd (getp newValue f) (\<lambda>b.
     bnd (if truthy b then bnd (to_key id') (delp b) else ret ()) (\<lambda>_.
     ret newValue))))"

definition sample_world :: world where
  "sample_world = \<lparr>heap = [Obj Plain [(''audioBuffers'', JRef 1)],
      Obj Plain [(''x'', JRef 2), (''y'', JStr ''pending'')], Obj AudioBuffer []],
    audioContext = True, trace = [], monads = []\<rparr>"

definition sound_body :: "val \<Rightarrow> val \<Rightarrow> string \<Rightarrow> unit js" where
  "sound_body src audioBuffers sound =
     bnd (setp audioBuffers sound (JStr ''pending'')) (\<lambda>_.
     bnd (getp src sound) (\<lambda>data.
     bnd (split1 data) (\<lambda>payload.
     bnd (base64ToArrayBuffer payload) (\<lambda>buff.
     decodeAudioData buff audioBuffers (JStr sound)))))"

definition writes_only :: "addr \<Rightarrow> world \<Rightarrow> world \<Rightarrow> bool" where
  "writes_only t wl wl' = (length (heap wl') = length (heap wl)
     \<and> (\<forall>a. a \<noteq> t \<longrightarrow> heap wl' ! a = heap wl ! a)
     \<and> kind (heap wl' ! t) = kind (heap wl ! t))"

definition scheduled_on :: "world \<Rightarrow> addr \<Rightarrow> string \<Rightarrow> bool" where
  "scheduled_on w' t k =
     (map_of (own w' (JRef t)) k = Some (JStr ''pending'')
      \<and> (\<forall>wl audioData. t < length (heap wl) \<longrightarrow>
            (\<exists>wl'. audioDecodedSuccess (JRef t) (JStr k) audioData wl = (Inr (), wl')
               \<and> writes_only t wl wl' \<and> map_of (own wl' (JRef t)) k = Some audioData))
      \<and> (\<forall>wl. t < length (heap wl) \<longrightarrow>
            (\<exists>wl'. audioDecodedFailed (JRef t) (JStr k) wl = (Inr (), wl')
               \<and> writes_only t wl wl' \<and> map_of (own wl' (JRef t)) k = Some (JStr ''failed''))))"

definition pong_world :: world where
  "pong_world = \<lparr>heap = [Obj Plain [(''audioBuffers'', JRef 1)], Obj Plain []],
    audioContext = True, trace = [], monads = []\<rparr>"

definition ping_world :: world where
  "ping_world = \<lparr>heap = [Obj Plain [], Obj Plain [(''ping'', JStr ''data:audio/wav;base64,AAAA'')]],
    audioContext = True, trace = [], monads = []\<rparr>"

definition gain_event :: "event \<Rightarrow> bool" where
  "gain_event e = (case e of CreateGain a \<Rightarrow> True | Connect a Destination \<Rightarrow> True | _ \<Rightarrow> False)"

definition benign :: "'a js \<Rightarrow> ('a \<Rightarrow> bool) \<Rightarrow> bool" where
  "benign f Q = (\<forall>w r w'. f w = (r, w') \<longrightarrow>
     (\<exists>extra es. w' = w\<lparr>heap := heap w @ extra, trace := trace w @ es\<rparr>
        \<and> (\<forall>e\<in>set es. \<not> gain_event e))
     \<and> (\<forall>x. r = Inr x \<longrightarrow> Q x))"

definition silent :: "'a js \<Rightarrow> bool" where
  "silent f = (\<forall>w r w'. f w = (r, w') \<longrightarrow> trace w' = trace w)"

definition fails_silently :: "'a js \<Rightarrow> bool" where
  "fails_silently f = (\<forall>w e w'. f w = (Inl e, w') \<longrightarrow> trace w' = trace w)"

definition play_tail :: "val \<Rightarrow> val \<Rightarrow> val \<Rightarrow> val js" where
  "play_tail value buffer location =
       bnd createBufferSource (\<lambda>audioSource.
       bnd (set_buffer audioSource buffer) (\<lambda>_.
       bnd (if truthy location
            then bnd (getp value ''locations'') (\<lambda>l.
                 if truthy l then bnd (to_key location) (getp l) else ret l)
            else ret location) (\<lambda>there.
       bnd (if truthy there
            then bnd (location_of value location) (\<lambda>panner.
                 bnd (connect audioSource (Node panner)) (\<lambda>_.
                 bnd (location_of value location) (\<lambda>panner.
                 bnd (getp value ''masterGain'') (\<lambda>g.
                 connect panner (Node g)))))
            else bnd (getp value ''masterGain'') (\<lambda>g.
                 connect audioSource (Node g))) (\<lambda>_.
       bnd (call_method audioSource ''start'') (\<lambda>a.
       bnd (emit (Start a (JNum 0))) (\<lambda>_.
       ret value))))))"

definition add_gain :: "val \<Rightarrow> val js" where
  "add_gain value =
     bnd (cloneData value) (\<lambda>value'.
     bnd (createMasterGain JUndefined) (\<lambda>g'.
     bnd (setp value' ''masterGain'' g') (\<lambda>_.
     ret value')))"

definition with_gain :: "val \<Rightarrow> val \<Rightarrow> val js" where
  "with_gain volume value =
     bnd (cloneData value) (\<lambda>newValue.
     bnd (createMasterGain volume) (\<lambda>g.
     bnd (setp newValue ''masterGain'' g) (\<lambda>_.
     ret newValue)))"

text \<open>The buffer \<open>play\<close> finds: \<open>value.audioBuffers && value.audioBuffers[id]\<close>.\<close>

definition found_buffer :: "val \<Rightarrow> val \<Rightarrow> val js" where
  "found_buffer value id' =
     bnd (getp value ''audioBuffers'') (\<lambda>b.
     if truthy b then bnd (to_key id') (getp b) else ret b)"

definition gain_world :: world where
  "gain_world = \<lparr>heap = [Obj Plain [(''audioBuffers'', JRef 1)],
      Obj Plain [(''ping'', JRef 2)], Obj AudioBuffer []],
    audioContext = True, trace = [], monads = []\<rparr>"

definition gain_played :: world where
  "gain_played = \<lparr>heap = [Obj Plain [(''audioBuffers'', JRef 1)],
      Obj Plain [(''ping'', JRef 2)], Obj AudioBuffer [],
      Obj Plain [(''audioBuffers'', JRef 4), (''masterGain'', JRef 5)],
      Obj Plain [(''ping'', JRef 2)], Obj GainNode [], Obj BufferSourceNode []],
    audioContext = True,
    trace = [CreateGain 5, SetGainValue 5 (JNum 1), Connect 5 Destination,
      CreateBufferSource 6, SetBuffer 6 (JRef 2), Connect 6 (Node (JRef 5)), Start 6 (JNum 0)],
    monads = []\<rparr>"

section \<open>The prototype and disabled monads\<close>

lemma map_of_audio_prototype:
  "map_of audio_prototype name =
    (if name = ''getAudioBuffers'' then Some (lift_value_method getAudioBuffers)
     else if name = ''setAudioBuffers'' then Some (lift_method (Some audio_modifier) setAudioBuffers)
     else if name = ''masterGain'' then Some (lift_method (Some audio_modifier) masterGain)
     else if name = ''play'' then Some (lift_method (Some audio_modifier) play)
     else if name = ''removeSound'' then Some (lift_method (Some audio_modifier) removeSound)
     else if name = ''sounds'' then Some (lift_method (Some audio_modifier) sounds)
     else if name = ''addSound'' then Some (lift_method (Some audio_modifier) addSound)
     else if name = ''locate'' then Some (lift_method (Some audio_modifier) locate)
     else if name = ''removeLocation'' then Some (lift_method (Some audio_modifier) removeLocation)
     else if name = ''listenAt'' then Some (lift_method (Some audio_modifier) listenAt)
     else if name = ''orient'' then Some (lift_method (Some audio_modifier) orient)
     else if name = ''cone'' then Some (lift_method (Some audio_modifier) cone)
     else None)"
  by (simp add: audio_prototype_def lift_def lift_value_def update_conv')

lemma audioMonad_disabled:
  assumes "\<not> audioContext w \<or> \<not> truthy v" and "audioMonad v w = (m, w1)"
  shows "monads w1 ! m = Monad v ReturnSelf"
  using assms by (auto simp: audioMonad_def unit_def audio_modifier_def Let_def)

lemma disabled_bind:
  "mbind (monads w ! m) = ReturnSelf \<Longrightarrow> monad_bind m func args w = (Inr (M m), w)"
  by (simp add: monad_bind_def)

lemma disabled_invoke:
  assumes "mbind (monads w ! m) = ReturnSelf" and "registered name"
  shows "invoke m name args w = (Inr (M m), w)"
  using assms
  by (auto simp: registered_def invoke_def map_of_audio_prototype lift_method_def
      lift_value_method_def disabled_bind bnd_def split: if_splits)

lemma disabled_chain:
  assumes "mbind (monads w ! m) = ReturnSelf" and "\<forall>c \<in> set cs. registered (fst c)"
  shows "chain (M m) cs w = (Inr (M m), w)"
  using assms by (induction cs) (auto simp: disabled_invoke)

text \<open>
  Claim C2. When there is no audio context, or the value given to \<open>audioMonad\<close> is falsy,
  the monad it returns has the \<open>bind\<close> that takes any function and arguments and returns
  the monad; every chain of registered operations on it, cut after any number of calls,
  returns that same monad without an exception and leaves the world as it was.
\<close>

theorem disabled_monad_chain:
  assumes "\<not> audioContext w \<or> \<not> truthy v"
    and "audioMonad v w = (m, w1)"
    and "\<forall>c \<in> set cs. registered (fst c)"
  shows "mbind (monads w1 ! m) = ReturnSelf
    \<and> (\<forall>func args. monad_bind m func args w1 = (Inr (M m), w1))
    \<and> (\<forall>n \<le> length cs. chain (M m) (take n cs) w1 = (Inr (M m), w1))"
proof -
  have off: "mbind (monads w1 ! m) = ReturnSelf"
    using audioMonad_disabled [OF assms(1,2)] by simp
  have "chain (M m) (take n cs) w1 = (Inr (M m), w1)" for n
  proof (rule disabled_chain [OF off])
    show "\<forall>c \<in> set (take n cs). registered (fst c)"
      using assms(3) by (meson in_set_takeD)
  qed
  with off show ?thesis
    by (simp add: disabled_bind)
qed

theorem disabled_monad_chain_witness:
  "audioMonad (JNum 0) empty_world = (0, empty_world\<lparr>monads := [Monad (JNum 0) ReturnSelf]\<rparr>)
   \<and> chain (M 0) [(''addSound'', [JStr ''ping'', JNull]), (''play'', [JStr ''ping''])]
        (empty_world\<lparr>monads := [Monad (JNum 0) ReturnSelf]\<rparr>)
     = (Inr (M 0), empty_world\<lparr>monads := [Monad (JNum 0) ReturnSelf]\<rparr>)"
proof -
  have falsy: "\<not> audioContext empty_world \<or> \<not> truthy (JNum 0)"
    by simp
  have made: "audioMonad (JNum 0) empty_world
      = (0, empty_world\<lparr>monads := [Monad (JNum 0) ReturnSelf]\<rparr>)"
    by (simp add: audioMonad_def unit_def audio_modifier_def empty_world_def)
  have names: "\<forall>c \<in> set [(''addSound'', [JStr ''ping'', JNull]), (''play'', [JStr ''ping''])].
      registered (fst c)"
    by (simp add: registered_def map_of_audio_prototype)
  from disabled_monad_chain [OF falsy made names] made show ?thesis
    by auto
qed

text \<open>
  Claim C10. On a monad made without an audio context, or from a falsy value, the accessor
  \<open>getAudioBuffers\<close> (registered with \<open>lift_value\<close>) returns the monad itself, not a
  mapping, and makes no object.
\<close>

theorem disabled_getAudioBuffers:
  assumes "\<not> audioContext w \<or> \<not> truthy v"
    and "audioMonad v w = (m, w1)"
  shows "invoke m ''getAudioBuffers'' args w1 = (Inr (M m), w1)"
proof -
  have "mbind (monads w1 ! m) = ReturnSelf"
    using audioMonad_disabled [OF assms] by simp
  then show ?thesis
    by (simp add: invoke_def map_of_audio_prototype lift_value_method_def disabled_bind)
qed

theorem disabled_getAudioBuffers_witness:
  "invoke 0 ''getAudioBuffers'' [] (empty_world\<lparr>audioContext := False, monads := [Monad (JRef 0) ReturnSelf]\<rparr>)
     = (Inr (M 0), empty_world\<lparr>audioContext := False, monads := [Monad (JRef 0) ReturnSelf]\<rparr>)"
proof -
  have no_context: "\<not> audioContext (empty_world\<lparr>audioContext := False\<rparr>) \<or> \<not> truthy (JRef 0)"
    by simp
  have made: "audioMonad (JRef 0) (empty_world\<lparr>audioContext := False\<rparr>)
      = (0, empty_world\<lparr>audioContext := False, monads := [Monad (JRef 0) ReturnSelf]\<rparr>)"
    by (simp add: audioMonad_def unit_def audio_modifier_def empty_world_def)
  from disabled_getAudioBuffers [OF no_context made] show ?thesis .
qed

section \<open>Copying and the shape of a clone\<close>

lemma bndE:
  assumes "bnd f g w = (r, w')"
  obtains (throws) e where "f w = (Inl e, w')" "r = Inl e"
    | (returns) x w1 where "f w = (Inr x, w1)" "g x w1 = (r, w')"
  using assms by (auto simp: bnd_def split: prod.splits sum.splits)

lemma own_append [simp]:
  "denotes w v \<Longrightarrow> own (w\<lparr>heap := heap w @ new\<rparr>) v = own w v"
  by (cases v) (simp_all add: own_def denotes_def nth_append)

lemma get_append [simp]:
  "denotes w v \<Longrightarrow> get (w\<lparr>heap := heap w @ new\<rparr>) v k = get w v k"
  by (simp add: get_def)

lemma own_update_other:
  "v \<noteq> JRef n \<Longrightarrow> own (w\<lparr>heap := (heap w)[n := ob]\<rparr>) v = own w v"
  by (cases v) (simp_all add: own_def)

lemma set_enum_order [simp]: "set (enum_order ks) = set ks"
  by (auto simp: enum_order_def)

lemma length_enum_order [simp]: "length (enum_order ks) = length ks"
  by (simp add: enum_order_def sum_length_filter_compl)

lemma set_keys: "set (keys w v) = fst ` set (own w v)"
  by (simp add: keys_def)

lemma inherits_field [simp]:
  "\<not> inherits w v ''locations''" "\<not> inherits w v ''sources''" "\<not> inherits w v ''masterGain''"
  "\<not> inherits w v ''audioBuffers''" "\<not> inherits w v ''panners''"
  by (simp_all add: inherits_def state_fields_def)

lemma getp_own:
  "map_of (own w v) k = Some x \<Longrightarrow> getp v k w = (Inr x, w)"
  by (auto simp: getp_def get_def own_def nullish_def)

lemma getp_field:
  "\<not> inherits w v f \<Longrightarrow> getp v f w = (if nullish v then (Inl TypeError, w) else (Inr (get w v f), w))"
  by (simp add: getp_def)

lemma setp_proto: "a < length (heap w) \<Longrightarrow> setp (JRef a) ''__proto__'' v w = (Inl Unmodelled, w)"
  by (simp add: setp_def nullish_def)

lemma keys_nonempty_not_nullish: "k \<in> set (keys w v) \<Longrightarrow> \<not> nullish v"
  by (auto simp: keys_def own_def nullish_def)

lemma key_has_value: "k \<in> set (keys w v) \<Longrightarrow> \<exists>x. map_of (own w v) k = Some x"
  by (cases "map_of (own w v) k") (auto simp: keys_def map_of_eq_None_iff)

lemma copy_prop_step:
  assumes "map_of (own w src) k = Some x" and "n < length (heap w)" and "k \<noteq> ''__proto__''"
  shows "copy_prop src n k w = (Inr (), w\<lparr>heap := (heap w)[n := Obj (kind (heap w ! n))
        (AList.update k x (props (heap w ! n)))]\<rparr>)"
proof -
  show ?thesis
    using assms by (simp add: copy_prop_def bnd_def getp_own setp_def nullish_def)
qed

lemma copy_prop_proto:
  assumes "map_of (own w src) ''__proto__'' = Some x" and "n < length (heap w)"
  shows "copy_prop src n ''__proto__'' w = (Inl Unmodelled, w)"
  using assms by (simp add: copy_prop_def bnd_def getp_own setp_proto)

lemma world_heap_same: "w\<lparr>heap := (heap w)[n := Obj (kind (heap w ! n)) (props (heap w ! n))]\<rparr> = w"
  by simp

lemma copy_loop:
  assumes "for_in src ks (copy_prop src n) w = (r, w')"
    and "n < length (heap w)" and "src \<noteq> JRef n" and "set ks \<subseteq> set (keys w src)"
  shows "\<exists>P. w' = w\<lparr>heap := (heap w)[n := Obj (kind (heap w ! n)) P]\<rparr>
    \<and> (r = Inr () \<longrightarrow> (\<forall>k. map_of P k = (if k \<in> set ks then map_of (own w src) k
                                       else map_of (props (heap w ! n)) k)))"
  using assms
proof (induction ks arbitrary: w)
  case Nil
  then have "w' = w" "r = Inr ()" by simp_all
  then show ?case
    by (intro exI [of _ "props (heap w ! n)"]) simp
next
  case (Cons k ks)
  obtain x where x: "map_of (own w src) k = Some x"
    using key_has_value Cons.prems(4) by force
  show ?case
  proof (cases "is_ref src \<and> map_of (own w src) ''hasOwnProperty'' \<noteq> None")
    case True
    then have "hasOwnProperty src k w = (Inl TypeError, w)"
      by (simp add: hasOwnProperty_def)
    then have "w' = w" "r = Inl TypeError"
      using Cons.prems(1) by simp_all
    then show ?thesis
      by (intro exI [of _ "props (heap w ! n)"]) simp
  next
    case False
    define w1 where "w1 = w\<lparr>heap := (heap w)[n := Obj (kind (heap w ! n))
        (AList.update k x (props (heap w ! n)))]\<rparr>"
    have nn: "\<not> nullish src"
      using x by (auto simp: own_def nullish_def)
    have hop: "hasOwnProperty src k w = (Inr True, w)"
      using False nn x by (auto simp: hasOwnProperty_def)
    show ?thesis
    proof (cases "k = ''__proto__''")
    case True
    have "copy_prop src n k w = (Inl Unmodelled, w)"
      unfolding True using x Cons.prems(2) unfolding True by (rule copy_prop_proto)
    then have "w' = w" "r = Inl Unmodelled"
      using Cons.prems(1) by (simp_all add: hop)
    then show ?thesis
      by (intro exI [of _ "props (heap w ! n)"]) simp
    next
    case notproto: False
    have step: "copy_prop src n k w = (Inr (), w1)"
      unfolding w1_def using x Cons.prems(2) notproto by (rule copy_prop_step)
    have own1: "own w1 src = own w src"
      unfolding w1_def using Cons.prems(3) by (rule own_update_other)
    have run: "for_in src ks (copy_prop src n) w1 = (r, w')"
      using Cons.prems(1) by (simp add: hop step)
    have "\<exists>P. w' = w1\<lparr>heap := (heap w1)[n := Obj (kind (heap w1 ! n)) P]\<rparr>
      \<and> (r = Inr () \<longrightarrow> (\<forall>k. map_of P k = (if k \<in> set ks then map_of (own w1 src) k
                                       else map_of (props (heap w1 ! n)) k)))"
    proof (rule Cons.IH [OF run])
      show "n < length (heap w1)" using Cons.prems(2) by (simp add: w1_def)
      show "src \<noteq> JRef n" by fact
      show "set ks \<subseteq> set (keys w1 src)" using Cons.prems(4) by (simp add: keys_def own1)
    qed
    then obtain P where P: "w' = w1\<lparr>heap := (heap w1)[n := Obj (kind (heap w1 ! n)) P]\<rparr>"
      and Q: "r = Inr () \<longrightarrow> (\<forall>k. map_of P k = (if k \<in> set ks then map_of (own w1 src) k
                                       else map_of (props (heap w1 ! n)) k))"
      by blast
    have h1: "heap w1 ! n = Obj (kind (heap w ! n)) (AList.update k x (props (heap w ! n)))"
      using Cons.prems(2) by (simp add: w1_def)
    have a: "w' = w\<lparr>heap := (heap w)[n := Obj (kind (heap w ! n)) P]\<rparr>"
      unfolding P h1 by (simp add: w1_def)
    have b: "r = Inr () \<longrightarrow> (\<forall>k'. map_of P k' = (if k' \<in> set (k # ks) then map_of (own w src) k'
                                       else map_of (props (heap w ! n)) k'))"
    proof (intro impI allI)
      fix k' assume "r = Inr ()"
      with Q have "map_of P k' = (if k' \<in> set ks then map_of (own w1 src) k'
                                       else map_of (props (heap w1 ! n)) k')" by blast
      then show "map_of P k' = (if k' \<in> set (k # ks) then map_of (own w src) k'
                                       else map_of (props (heap w ! n)) k')"
        unfolding own1 h1 using x by (simp add: update_conv')
    qed
    from a b show ?thesis by blast
    qed
  qed
qed

lemma result_cases: "(r :: error + unit) = Inr () \<or> (\<exists>e. r = Inl e)"
  by (cases r) auto

lemma copy_prop_eq: "(\<lambda>p. bnd (getp src p) (\<lambda>v. setp (JRef n) p v)) = copy_prop src n"
  by (rule ext) (simp add: copy_prop_def)

lemma shallowCopy_spec:
  assumes "shallowCopy src w = (r, w')" and "denotes w src"
  shows "\<exists>P. w' = w\<lparr>heap := heap w @ [Obj Plain P]\<rparr>
    \<and> (r = Inr (JRef (length (heap w))) \<and> map_of P = map_of (own w src) \<or> (\<exists>e. r = Inl e))"
proof -
  let ?n = "length (heap w)"
  let ?w1 = "w\<lparr>heap := heap w @ [Obj Plain []]\<rparr>"
  have src: "src \<noteq> JRef ?n" using assms(2) by (auto simp: denotes_def)
  obtain r1 w2 where loop: "for_in src (keys ?w1 src) (copy_prop src ?n) ?w1 = (r1, w2)"
    by fastforce
  have run: "shallowCopy src w = (case r1 of Inl e \<Rightarrow> (Inl e, w2) | Inr u \<Rightarrow> (Inr (JRef ?n), w2))"
    using loop by (simp add: shallowCopy_def new_object_def bnd_def ret_def for_own_def copy_prop_eq
        split: sum.splits)
  have "\<exists>P. w2 = ?w1\<lparr>heap := (heap ?w1)[?n := Obj (kind (heap ?w1 ! ?n)) P]\<rparr>
    \<and> (r1 = Inr () \<longrightarrow> (\<forall>k. map_of P k = (if k \<in> set (keys ?w1 src) then map_of (own ?w1 src) k
                                       else map_of (props (heap ?w1 ! ?n)) k)))"
    by (rule copy_loop [OF loop _ src]) simp_all
  then obtain P where P: "w2 = ?w1\<lparr>heap := (heap ?w1)[?n := Obj (kind (heap ?w1 ! ?n)) P]\<rparr>"
    and Q: "r1 = Inr () \<longrightarrow> (\<forall>k. map_of P k = (if k \<in> set (keys ?w1 src) then map_of (own ?w1 src) k
                                       else map_of (props (heap ?w1 ! ?n)) k))"
    by blast
  have w2: "w2 = w\<lparr>heap := heap w @ [Obj Plain P]\<rparr>"
    using P by simp
  have same: "r1 = Inr () \<longrightarrow> map_of P = map_of (own w src)"
  proof
    assume ok: "r1 = Inr ()"
    have o1: "own ?w1 src = own w src"
      using assms(2) by (rule own_append)
    have "map_of P k = map_of (own w src) k" for k
    proof (cases "k \<in> set (keys w src)")
      case True
      with Q ok show ?thesis by (simp add: keys_def o1)
    next
      case False
      then have "map_of (own w src) k = None"
        by (simp add: keys_def map_of_eq_None_iff)
      moreover have "map_of P k = None"
        using Q ok False by (simp add: keys_def o1)
      ultimately show ?thesis by simp
    qed
    then show "map_of P = map_of (own w src)" by (rule ext)
  qed
  from result_cases [of r1] show ?thesis
  proof
    assume "r1 = Inr ()"
    with run assms(1) same w2 show ?thesis by auto
  next
    assume "\<exists>e. r1 = Inl e"
    with run assms(1) w2 show ?thesis by auto
  qed
qed

lemma bnd_assoc: "bnd (bnd m f) g = bnd m (\<lambda>x. bnd (f x) g)"
  by (rule ext) (simp add: bnd_def split: prod.splits sum.splits)

lemma bnd_if: "bnd (if c then a else b) g = (if c then bnd a g else bnd b g)"
  by simp

lemma cloneData_alt:
  "cloneData data = bnd (new_object Plain) (\<lambda>clone.
     bnd (copy_field data clone ''locations'') (\<lambda>_.
     bnd (copy_field data clone ''sources'') (\<lambda>_.
     bnd (copy_gain data clone) (\<lambda>_.
     bnd (copy_field data clone ''audioBuffers'') (\<lambda>_.
     ret clone)))))"
  by (simp add: cloneData_def copy_field_def copy_gain_def bnd_assoc)

lemma partial_clone_extended: "partial_clone w d fs w1 \<Longrightarrow> extended w w1"
  by (auto simp: partial_clone_def extended_def clone_shape_def)

lemma extendedI:
  "w1 = w\<lparr>heap := heap w @ Obj Plain F # new\<rparr> \<Longrightarrow> \<forall>ob\<in>set new. kind ob = Plain
     \<Longrightarrow> extended w w1"
  unfolding extended_def by blast

lemma sub_value_bound:
  assumes "clone_shape w d fs F new" and "f \<in> sub_fields" and "map_of F f = Some v"
  shows "\<exists>i<length new. v = JRef (length (heap w) + 1 + i)"
proof (cases "f \<in> fs")
  case True
  then have "field_copied w d F new f"
    using assms(1,2) by (simp add: clone_shape_def)
  then show ?thesis
    using assms(3) by (auto simp: field_copied_def split: if_splits)
next
  case False
  then have "map_of F f = None"
    using assms(1) by (simp add: clone_shape_def)
  then show ?thesis using assms(3) by simp
qed

lemma field_copied_mono:
  assumes "field_copied w d F new f" and "map_of F' f = map_of F f"
  shows "field_copied w d F' (new @ extra) f"
proof (cases "truthy (get w d f)")
  case True
  with assms(1) obtain i where i: "i < length new"
    "map_of F f = Some (JRef (length (heap w) + 1 + i))"
    "map_of (props (new ! i)) = map_of (own w (get w d f))"
    by (auto simp: field_copied_def)
  have "i < length (new @ extra) \<and> map_of F' f = Some (JRef (length (heap w) + 1 + i))
      \<and> map_of (props ((new @ extra) ! i)) = map_of (own w (get w d f))"
    using i assms(2) by (simp add: nth_append)
  then show ?thesis
    unfolding field_copied_def using True by (simp only: if_True) blast
next
  case False
  with assms show ?thesis by (simp add: field_copied_def)
qed

lemma copy_field_step:
  assumes inv: "partial_clone w d fs w1" and f: "f \<notin> fs" "f \<in> sub_fields"
    and d: "denotes w d" "denotes w (get w d f)"
    and run: "copy_field d (JRef (length (heap w))) f w1 = (r, w2)"
  shows "extended w w2 \<and> (r = Inr () \<longrightarrow> partial_clone w d (insert f fs) w2)"
proof -
  let ?n = "length (heap w)"
  let ?l = "get w d f"
  from inv obtain F new where w1: "w1 = w\<lparr>heap := heap w @ Obj Plain F # new\<rparr>"
    and sh: "clone_shape w d fs F new"
    by (auto simp: partial_clone_def)
  have plain: "\<forall>ob\<in>set new. kind ob = Plain"
    using sh by (simp add: clone_shape_def)
  have none: "map_of F f = None"
    using sh f(1) by (simp add: clone_shape_def)
  have g1: "get w1 d f = ?l"
    unfolding w1 using d(1) by (rule get_append)
  have ni: "\<not> inherits w1 d f"
    using f(2) by (auto simp: sub_fields_def)
  have np: "f \<noteq> ''__proto__''"
    using f(2) by (auto simp: sub_fields_def)
  show ?thesis
  proof (cases "nullish d")
    case True
    then have "w2 = w1" "r = Inl TypeError"
      using run by (simp_all add: copy_field_def bnd_def getp_def)
    then show ?thesis
      using extendedI [OF w1 plain] by simp
  next
    case nn: False
    show ?thesis
    proof (cases "truthy ?l")
      case False
      then have res: "w2 = w1" "r = Inr ()"
        using run nn g1 ni by (simp_all add: copy_field_def bnd_def getp_def ret_def)
      have "field_copied w d F new f"
        using False none by (simp add: field_copied_def)
      moreover have "f \<noteq> ''masterGain''"
        using f(2) by (auto simp: sub_fields_def)
      ultimately have "clone_shape w d (insert f fs) F new"
        using sh by (auto simp: clone_shape_def)
      then have "partial_clone w d (insert f fs) w2"
        unfolding partial_clone_def res(1) using w1 by blast
      then show ?thesis
        using partial_clone_extended res(2) by blast
    next
      case True
      obtain r1 w1' where sc: "shallowCopy ?l w1 = (r1, w1')"
        by fastforce
      have dl: "denotes w1 ?l"
        using d(2) by (cases ?l) (simp_all add: denotes_def w1)
      from shallowCopy_spec [OF sc dl] obtain P where
        w1': "w1' = w1\<lparr>heap := heap w1 @ [Obj Plain P]\<rparr>"
        and r1: "r1 = Inr (JRef (length (heap w1))) \<and> map_of P = map_of (own w1 ?l) \<or> (\<exists>e. r1 = Inl e)"
        by blast
      have o1: "own w1 ?l = own w ?l"
        unfolding w1 using d(2) by (rule own_append)
      have w1'': "w1' = w\<lparr>heap := heap w @ Obj Plain F # (new @ [Obj Plain P])\<rparr>"
        using w1' by (simp add: w1)
      from r1 show ?thesis
      proof
        assume "\<exists>e. r1 = Inl e"
        then obtain e where e: "r1 = Inl e" ..
        then have "w2 = w1'"
          using run nn g1 True sc ni by (simp add: copy_field_def bnd_def getp_def)
        then have "extended w w2"
          using w1'' plain by (intro extendedI [of _ _ F "new @ [Obj Plain P]"]) simp_all
        moreover have "r = Inl e"
          using run nn g1 True sc e ni by (simp add: copy_field_def bnd_def getp_def)
        ultimately show ?thesis by simp
      next
        assume ok: "r1 = Inr (JRef (length (heap w1))) \<and> map_of P = map_of (own w1 ?l)"
        let ?b = "JRef (?n + 1 + length new)"
        let ?F' = "AList.update f ?b F"
        let ?new' = "new @ [Obj Plain P]"
        have r1': "r1 = Inr ?b"
          using ok by (simp add: w1)
        have set: "setp (JRef ?n) f ?b w1' = (Inr (), w\<lparr>heap := heap w @ Obj Plain ?F' # ?new'\<rparr>)"
          using np by (simp add: setp_def nullish_def w1'' nth_append list_update_append)
        have res: "w2 = w\<lparr>heap := heap w @ Obj Plain ?F' # ?new'\<rparr>" "r = Inr ()"
          using run nn g1 True sc r1' set ni by (simp_all add: copy_field_def bnd_def getp_def)
        have P: "map_of P = map_of (own w ?l)"
          using ok o1 by simp
        have new_f: "field_copied w d ?F' ?new' f"
        proof -
          have "length new < length ?new' \<and> map_of ?F' f = Some (JRef (?n + 1 + length new))
            \<and> map_of (props (?new' ! length new)) = map_of (own w ?l)"
            using P by (simp add: update_conv')
          then show ?thesis
            unfolding field_copied_def using True by (simp only: if_True) blast
        qed
        have old_f: "field_copied w d ?F' ?new' f'" if "f' \<in> fs \<inter> sub_fields" for f'
        proof (rule field_copied_mono)
          show "field_copied w d F new f'" using sh that by (simp add: clone_shape_def)
          show "map_of ?F' f' = map_of F f'" using that f(1) by (auto simp: update_conv')
        qed
        have fresh: "map_of F f' \<noteq> Some ?b" if "f' \<in> sub_fields" for f'
          using sub_value_bound [OF sh that] by fastforce
        have dist: "\<forall>g\<in>sub_fields. \<forall>g'\<in>sub_fields. \<forall>v. g \<noteq> g' \<longrightarrow> map_of ?F' g = Some v
            \<longrightarrow> map_of ?F' g' \<noteq> Some v"
        proof (intro ballI allI impI)
          fix g g' v assume g: "g \<in> sub_fields" "g' \<in> sub_fields" "g \<noteq> g'" "map_of ?F' g = Some v"
          have old: "\<forall>g\<in>sub_fields. \<forall>g'\<in>sub_fields. \<forall>v. g \<noteq> g' \<longrightarrow> map_of F g = Some v
            \<longrightarrow> map_of F g' \<noteq> Some v"
            using sh by (simp add: clone_shape_def)
          show "map_of ?F' g' \<noteq> Some v"
          proof (cases "g = f")
            case True
            then have "v = ?b" using g(4) by (simp add: update_conv')
            moreover have "map_of ?F' g' = map_of F g'" using g(3) True by (simp add: update_conv')
            ultimately show ?thesis using fresh [OF g(2)] by simp
          next
            case gf: False
            then have v: "map_of F g = Some v" using g(4) by (simp add: update_conv')
            show ?thesis
            proof (cases "g' = f")
              case True
              then have "map_of ?F' g' = Some ?b" by (simp add: update_conv')
              moreover have "v \<noteq> ?b" using fresh [OF g(1)] v by auto
              ultimately show ?thesis by simp
            next
              case False
              then have "map_of ?F' g' = map_of F g'" by (simp add: update_conv')
              then show ?thesis using old g(1,2,3) v by simp
            qed
          qed
        qed
        have gain: "''masterGain'' \<in> insert f fs \<longrightarrow> map_of ?F' ''masterGain'' =
            (if truthy (get w d ''masterGain'') then Some (get w d ''masterGain'') else None)"
        proof
          assume "''masterGain'' \<in> insert f fs"
          moreover have "f \<noteq> ''masterGain''" using f(2) by (auto simp: sub_fields_def)
          ultimately have "''masterGain'' \<in> fs" "map_of ?F' ''masterGain'' = map_of F ''masterGain''"
            by (auto simp: update_conv')
          then show "map_of ?F' ''masterGain'' =
            (if truthy (get w d ''masterGain'') then Some (get w d ''masterGain'') else None)"
            using sh by (simp add: clone_shape_def)
        qed
        have "clone_shape w d (insert f fs) ?F' ?new'"
          unfolding clone_shape_def
        proof (intro conjI)
          show "\<forall>ob\<in>set ?new'. kind ob = Plain" using plain by simp
          show "\<forall>g. g \<notin> insert f fs \<longrightarrow> map_of ?F' g = None"
            using sh by (simp add: clone_shape_def update_conv')
          show "\<forall>g\<in>insert f fs \<inter> sub_fields. field_copied w d ?F' ?new' g"
            using new_f old_f by blast
          show "''masterGain'' \<in> insert f fs \<longrightarrow> map_of ?F' ''masterGain'' =
            (if truthy (get w d ''masterGain'') then Some (get w d ''masterGain'') else None)"
            by (rule gain)
          show "\<forall>g\<in>sub_fields. \<forall>g'\<in>sub_fields. \<forall>v. g \<noteq> g' \<longrightarrow> map_of ?F' g = Some v
            \<longrightarrow> map_of ?F' g' \<noteq> Some v"
            by (rule dist)
        qed
        then have "partial_clone w d (insert f fs) w2"
          unfolding partial_clone_def res(1) by blast
        then show ?thesis
          using partial_clone_extended res(2) by blast
      qed
    qed
  qed
qed

lemma copy_gain_step:
  assumes inv: "partial_clone w d fs w1" and f: "''masterGain'' \<notin> fs"
    and d: "denotes w d"
    and run: "copy_gain d (JRef (length (heap w))) w1 = (r, w2)"
  shows "extended w w2 \<and> (r = Inr () \<longrightarrow> partial_clone w d (insert ''masterGain'' fs) w2)"
proof -
  let ?n = "length (heap w)"
  let ?g = "get w d ''masterGain''"
  from inv obtain F new where w1: "w1 = w\<lparr>heap := heap w @ Obj Plain F # new\<rparr>"
    and sh: "clone_shape w d fs F new"
    by (auto simp: partial_clone_def)
  have plain: "\<forall>ob\<in>set new. kind ob = Plain"
    using sh by (simp add: clone_shape_def)
  have g1: "get w1 d ''masterGain'' = ?g"
    unfolding w1 using d by (rule get_append)
  have notsub: "''masterGain'' \<notin> sub_fields"
    by (simp add: sub_fields_def)
  show ?thesis
  proof (cases "nullish d")
    case True
    then have "w2 = w1" "r = Inl TypeError"
      using run by (simp_all add: copy_gain_def bnd_def getp_def)
    then show ?thesis
      using extendedI [OF w1 plain] by simp
  next
    case nn: False
    show ?thesis
    proof (cases "truthy ?g")
      case False
      then have res: "w2 = w1" "r = Inr ()"
        using run nn g1 by (simp_all add: copy_gain_def bnd_def getp_def ret_def)
      have "map_of F ''masterGain'' = None"
        using sh f by (simp add: clone_shape_def)
      then have "clone_shape w d (insert ''masterGain'' fs) F new"
        using sh False notsub by (auto simp: clone_shape_def)
      then have "partial_clone w d (insert ''masterGain'' fs) w2"
        unfolding partial_clone_def res(1) using w1 by blast
      then show ?thesis
        using partial_clone_extended res(2) by blast
    next
      case True
      let ?F' = "AList.update ''masterGain'' ?g F"
      have set: "setp (JRef ?n) ''masterGain'' ?g w1 = (Inr (), w\<lparr>heap := heap w @ Obj Plain ?F' # new\<rparr>)"
        by (simp add: setp_def nullish_def w1 nth_append list_update_append)
      have res: "w2 = w\<lparr>heap := heap w @ Obj Plain ?F' # new\<rparr>" "r = Inr ()"
        using run nn g1 True set by (simp_all add: copy_gain_def bnd_def getp_def)
      have same: "map_of ?F' f = map_of F f" if "f \<in> sub_fields" for f
        using that notsub by (auto simp: update_conv')
      have "clone_shape w d (insert ''masterGain'' fs) ?F' new"
        unfolding clone_shape_def
      proof (intro conjI)
        show "\<forall>ob\<in>set new. kind ob = Plain" by (rule plain)
        show "\<forall>g. g \<notin> insert ''masterGain'' fs \<longrightarrow> map_of ?F' g = None"
          using sh by (simp add: clone_shape_def update_conv')
        show "\<forall>g\<in>insert ''masterGain'' fs \<inter> sub_fields. field_copied w d ?F' new g"
        proof
          fix g assume g: "g \<in> insert ''masterGain'' fs \<inter> sub_fields"
          then have "g \<in> fs \<inter> sub_fields" using notsub by auto
          then have "field_copied w d F new g" using sh by (simp add: clone_shape_def)
          moreover have "map_of ?F' g = map_of F g" using g same by simp
          ultimately show "field_copied w d ?F' new g"
            using field_copied_mono [of w d F new g ?F' "[]"] by simp
        qed
        show "''masterGain'' \<in> insert ''masterGain'' fs \<longrightarrow> map_of ?F' ''masterGain'' =
            (if truthy ?g then Some ?g else None)"
          using True by (simp add: update_conv')
        show "\<forall>g\<in>sub_fields. \<forall>g'\<in>sub_fields. \<forall>v. g \<noteq> g' \<longrightarrow> map_of ?F' g = Some v
            \<longrightarrow> map_of ?F' g' \<noteq> Some v"
          using sh same by (simp add: clone_shape_def)
      qed
      then have "partial_clone w d (insert ''masterGain'' fs) w2"
        unfolding partial_clone_def res(1) by blast
      then show ?thesis
        using partial_clone_extended res(2) by blast
    qed
  qed
qed

lemma extended_heap: "extended w w1 \<Longrightarrow> \<exists>new. w1 = w\<lparr>heap := heap w @ new\<rparr> \<and> new \<noteq> [] \<and> (\<forall>ob\<in>set new. kind ob = Plain)"
  unfolding extended_def
proof (elim exE conjE)
  fix F new assume "w1 = w\<lparr>heap := heap w @ Obj Plain F # new\<rparr>" "\<forall>ob\<in>set new. kind ob = Plain"
  then have "w1 = w\<lparr>heap := heap w @ (Obj Plain F # new)\<rparr> \<and> Obj Plain F # new \<noteq> [] \<and> (\<forall>ob\<in>set (Obj Plain F # new). kind ob = Plain)"
    by simp
  then show ?thesis by blast
qed

text \<open>cloneData leaves the world extended by the clone and the copies, and describes the clone.\<close>

lemma cloneData_spec:
  assumes run: "cloneData d w = (r, w')"
    and d: "denotes w d" "denotes w (get w d ''locations'')" "denotes w (get w d ''sources'')"
      "denotes w (get w d ''audioBuffers'')"
  shows "extended w w' \<and> (\<forall>c. r = Inr c \<longrightarrow> c = JRef (length (heap w)) \<and> partial_clone w d all_fields w')"
proof -
  let ?c = "JRef (length (heap w))"
  let ?w0 = "w\<lparr>heap := heap w @ Obj Plain [] # []\<rparr>"
  have p0: "partial_clone w d {} ?w0"
    unfolding partial_clone_def clone_shape_def by (intro exI [of _ "[]"]) simp
  have new: "new_object Plain w = (Inr ?c, ?w0)"
    by (simp add: new_object_def)
  obtain r1 w1 where s1: "copy_field d ?c ''locations'' ?w0 = (r1, w1)" by fastforce
  have e1: "extended w w1" and i1: "r1 = Inr () \<longrightarrow> partial_clone w d {''locations''} w1"
    using copy_field_step [OF p0 _ _ d(1,2) s1] by (simp_all add: sub_fields_def)
  show ?thesis
  proof (cases "r1 = Inr ()")
    case False
    then obtain e where "r1 = Inl e" using result_cases by blast
    then have "w' = w1" "r = Inl e"
      using run new s1 by (simp_all add: cloneData_alt bnd_def)
    then show ?thesis using e1 by simp
  next
    case ok1: True
    obtain r2 w2 where s2: "copy_field d ?c ''sources'' w1 = (r2, w2)" by fastforce
    have e2: "extended w w2"
      and i2: "r2 = Inr () \<longrightarrow> partial_clone w d {''sources'', ''locations''} w2"
      using copy_field_step [OF i1 [rule_format, OF ok1] _ _ d(1,3) s2] by (simp_all add: sub_fields_def)
    show ?thesis
    proof (cases "r2 = Inr ()")
      case False
      then obtain e where "r2 = Inl e" using result_cases by blast
      then have "w' = w2" "r = Inl e"
        using run new s1 ok1 s2 by (simp_all add: cloneData_alt bnd_def)
      then show ?thesis using e2 by simp
    next
      case ok2: True
      obtain r3 w3 where s3: "copy_gain d ?c w2 = (r3, w3)" by fastforce
      have e3: "extended w w3"
        and i3: "r3 = Inr () \<longrightarrow> partial_clone w d {''masterGain'', ''sources'', ''locations''} w3"
        using copy_gain_step [OF i2 [rule_format, OF ok2] _ d(1) s3] by simp_all
      show ?thesis
      proof (cases "r3 = Inr ()")
        case False
        then obtain e where "r3 = Inl e" using result_cases by blast
        then have "w' = w3" "r = Inl e"
          using run new s1 ok1 s2 ok2 s3 by (simp_all add: cloneData_alt bnd_def)
        then show ?thesis using e3 by simp
      next
        case ok3: True
        obtain r4 w4 where s4: "copy_field d ?c ''audioBuffers'' w3 = (r4, w4)" by fastforce
        have e4: "extended w w4"
          and i4: "r4 = Inr () \<longrightarrow> partial_clone w d {''audioBuffers'', ''masterGain'', ''sources'', ''locations''} w4"
          using copy_field_step [OF i3 [rule_format, OF ok3] _ _ d(1,4) s4] by (simp_all add: sub_fields_def)
        have fs: "{''audioBuffers'', ''masterGain'', ''sources'', ''locations''} = all_fields"
          by (auto simp: all_fields_def)
        show ?thesis
        proof (cases "r4 = Inr ()")
          case False
          then obtain e where "r4 = Inl e" using result_cases by blast
          then have "w' = w4" "r = Inl e"
            using run new s1 ok1 s2 ok2 s3 ok3 s4 by (simp_all add: cloneData_alt bnd_def)
          then show ?thesis using e4 by simp
        next
          case ok4: True
          then have "w' = w4" "r = Inr ?c"
            using run new s1 ok1 s2 ok2 s3 ok3 s4 by (simp_all add: cloneData_alt bnd_def ret_def)
          then show ?thesis using e4 i4 ok4 fs by simp
        qed
      qed
    qed
  qed
qed

lemma falsy_own: "\<not> truthy v \<Longrightarrow> own w v = []"
  by (cases v) (simp_all add: own_def)

lemma clone_shape_shape:
  assumes "clone_shape w d all_fields F new"
  shows "shape w d (\<lambda>f. {}) F new"
  unfolding shape_def
proof (intro conjI)
  show "\<forall>f. f \<notin> all_fields \<longrightarrow> map_of F f = None"
    using assms by (simp add: clone_shape_def)
  show "\<forall>f\<in>sub_fields. field_ok w d (\<lambda>f. {}) F new f"
  proof
    fix f assume f: "f \<in> sub_fields"
    then have "f \<in> all_fields" by (auto simp: sub_fields_def all_fields_def)
    with f have fc: "field_copied w d F new f"
      using assms by (simp add: clone_shape_def)
    show "field_ok w d (\<lambda>f. {}) F new f"
    proof (cases "truthy (get w d f)")
      case True
      with fc obtain i where i: "i < length new" "map_of F f = Some (JRef (length (heap w) + 1 + i))"
        "map_of (props (new ! i)) = map_of (own w (get w d f))"
        by (auto simp: field_copied_def)
      moreover have "kind (new ! i) = Plain"
        using assms i(1) by (simp add: clone_shape_def)
      ultimately show ?thesis
        unfolding field_ok_def by (intro disjI2 exI [of _ i]) simp
    next
      case False
      with fc have "map_of F f = None" by (simp add: field_copied_def)
      then show ?thesis
        using False by (simp add: field_ok_def falsy_own)
    qed
  qed
  show "gain_ok w d F new"
    using assms by (simp add: clone_shape_def gain_ok_def all_fields_def)
  show "\<forall>f\<in>sub_fields. \<forall>f'\<in>sub_fields. \<forall>v. f \<noteq> f' \<longrightarrow> map_of F f = Some v \<longrightarrow> map_of F f' \<noteq> Some v"
    using assms by (simp add: clone_shape_def)
qed

text \<open>Appending objects keeps the shape.\<close>

lemma field_ok_append: "field_ok w d T F new f \<Longrightarrow> field_ok w d T F (new @ extra) f"
  unfolding field_ok_def
proof (elim disjE exE conjE)
  assume "map_of F f = None" "\<forall>k. k \<notin> T f \<longrightarrow> map_of (own w (get w d f)) k = None"
  then show "(map_of F f = None \<and> (\<forall>k. k \<notin> T f \<longrightarrow> map_of (own w (get w d f)) k = None))
      \<or> (\<exists>i<length (new @ extra). map_of F f = Some (JRef (length (heap w) + 1 + i)) \<and> kind ((new @ extra) ! i) = Plain
            \<and> (\<forall>k. k \<notin> T f \<longrightarrow> map_of (props ((new @ extra) ! i)) k = map_of (own w (get w d f)) k))"
    by simp
next
  fix i assume i: "i < length new" "map_of F f = Some (JRef (length (heap w) + 1 + i))" "kind (new ! i) = Plain"
    "\<forall>k. k \<notin> T f \<longrightarrow> map_of (props (new ! i)) k = map_of (own w (get w d f)) k"
  then have "i < length (new @ extra) \<and> map_of F f = Some (JRef (length (heap w) + 1 + i)) \<and> kind ((new @ extra) ! i) = Plain
            \<and> (\<forall>k. k \<notin> T f \<longrightarrow> map_of (props ((new @ extra) ! i)) k = map_of (own w (get w d f)) k)"
    by (simp add: nth_append)
  then show "(map_of F f = None \<and> (\<forall>k. k \<notin> T f \<longrightarrow> map_of (own w (get w d f)) k = None))
      \<or> (\<exists>i<length (new @ extra). map_of F f = Some (JRef (length (heap w) + 1 + i)) \<and> kind ((new @ extra) ! i) = Plain
            \<and> (\<forall>k. k \<notin> T f \<longrightarrow> map_of (props ((new @ extra) ! i)) k = map_of (own w (get w d f)) k))"
    by blast
qed

lemma gain_ok_append: "gain_ok w d F new \<Longrightarrow> gain_ok w d F (new @ extra)"
  unfolding gain_ok_def
proof (elim disjE exE conjE)
  assume "map_of F ''masterGain'' = (if truthy (get w d ''masterGain'') then Some (get w d ''masterGain'') else None)"
  then show "map_of F ''masterGain'' = (if truthy (get w d ''masterGain'') then Some (get w d ''masterGain'') else None)
      \<or> (\<exists>i<length (new @ extra). map_of F ''masterGain'' = Some (JRef (length (heap w) + 1 + i))
            \<and> kind ((new @ extra) ! i) = GainNode)"
    by simp
next
  fix i assume "i < length new" "map_of F ''masterGain'' = Some (JRef (length (heap w) + 1 + i))" "kind (new ! i) = GainNode"
  then have "i < length (new @ extra) \<and> map_of F ''masterGain'' = Some (JRef (length (heap w) + 1 + i))
            \<and> kind ((new @ extra) ! i) = GainNode"
    by (simp add: nth_append)
  then show "map_of F ''masterGain'' = (if truthy (get w d ''masterGain'') then Some (get w d ''masterGain'') else None)
      \<or> (\<exists>i<length (new @ extra). map_of F ''masterGain'' = Some (JRef (length (heap w) + 1 + i))
            \<and> kind ((new @ extra) ! i) = GainNode)"
    by blast
qed

lemma shape_append: "shape w d T F new \<Longrightarrow> shape w d T F (new @ extra)"
  by (simp add: shape_def field_ok_append gain_ok_append)

lemma field_ok_absent:
  "map_of F f = None \<Longrightarrow> (\<And>k. k \<notin> T f \<Longrightarrow> map_of (own w (get w d f)) k = None)
    \<Longrightarrow> field_ok w d T F new f"
  by (simp add: field_ok_def)

lemma field_ok_table:
  assumes "i < length new" "map_of F f = Some (JRef (length (heap w) + 1 + i))"
    "kind (new ! i) = Plain"
    "\<And>k. k \<notin> T f \<Longrightarrow> map_of (props (new ! i)) k = map_of (own w (get w d f)) k"
  shows "field_ok w d T F new f"
  unfolding field_ok_def using assms by blast

lemma field_ok_cases:
  assumes "field_ok w d T F new f"
  obtains (absent) "map_of F f = None" "\<And>k. k \<notin> T f \<Longrightarrow> map_of (own w (get w d f)) k = None"
  | (table) i where "i < length new" "map_of F f = Some (JRef (length (heap w) + 1 + i))"
      "kind (new ! i) = Plain"
      "\<And>k. k \<notin> T f \<Longrightarrow> map_of (props (new ! i)) k = map_of (own w (get w d f)) k"
  using assms by (auto simp: field_ok_def)

lemma gain_ok_cases:
  assumes "gain_ok w d F new"
  obtains (shared) "map_of F ''masterGain'' =
        (if truthy (get w d ''masterGain'') then Some (get w d ''masterGain'') else None)"
  | (made) i where "i < length new" "map_of F ''masterGain'' = Some (JRef (length (heap w) + 1 + i))"
      "kind (new ! i) = GainNode"
  using assms by (auto simp: gain_ok_def)

lemma gain_ok_made:
  "i < length new \<Longrightarrow> map_of F ''masterGain'' = Some (JRef (length (heap w) + 1 + i))
     \<Longrightarrow> kind (new ! i) = GainNode \<Longrightarrow> gain_ok w d F new"
  unfolding gain_ok_def by blast

lemma shape_field: "shape w d T F new \<Longrightarrow> f \<in> sub_fields \<Longrightarrow> field_ok w d T F new f"
  by (simp add: shape_def)

lemma shape_distinct:
  "shape w d T F new \<Longrightarrow> f \<in> sub_fields \<Longrightarrow> f' \<in> sub_fields \<Longrightarrow> f \<noteq> f'
     \<Longrightarrow> map_of F f = Some v \<Longrightarrow> map_of F f' \<noteq> Some v"
  by (simp add: shape_def)

lemma shape_ref_bound:
  assumes "shape w d T F new" "f \<in> sub_fields" "map_of F f = Some (JRef (length (heap w) + 1 + j))"
  shows "j < length new \<and> kind (new ! j) = Plain"
  using shape_field [OF assms(1,2)]
proof (cases rule: field_ok_cases)
  case absent
  then show ?thesis using assms(3) by simp
next
  case (table i)
  then show ?thesis using assms(3) by simp
qed

text \<open>Writing keys \<open>K\<close> of the table of field \<open>f\<close>.\<close>

lemma shape_table_update:
  assumes sh: "shape w d T F new" and f: "f \<in> sub_fields"
    and at: "map_of F f = Some (JRef (length (heap w) + 1 + i))"
    and P: "\<And>k. k \<notin> K \<Longrightarrow> map_of P k = map_of (props (new ! i)) k"
  shows "shape w d (T(f := T f \<union> K)) F (new[i := Obj Plain P])"
proof -
  have i: "i < length new" "kind (new ! i) = Plain"
    using shape_ref_bound [OF sh f at] by simp_all
  show ?thesis
    unfolding shape_def
  proof (intro conjI ballI)
    show "\<forall>g. g \<notin> all_fields \<longrightarrow> map_of F g = None"
      using sh by (simp add: shape_def)
  next
    fix g assume g: "g \<in> sub_fields"
    from shape_field [OF sh g] show "field_ok w d (T(f := T f \<union> K)) F (new[i := Obj Plain P]) g"
    proof (cases rule: field_ok_cases)
      case absent
      have "g \<noteq> f" using absent(1) at by auto
      then show ?thesis
        using absent by (intro field_ok_absent) simp_all
    next
      case (table j)
      show ?thesis
      proof (cases "g = f")
        case True
        then have "j = i" using table(2) at by simp
        show ?thesis
        proof (rule field_ok_table [of i])
          show "i < length (new[i := Obj Plain P])" using i by simp
          show "map_of F g = Some (JRef (length (heap w) + 1 + i))" using True at by simp
          show "kind (new[i := Obj Plain P] ! i) = Plain" using i by simp
          show "map_of (props (new[i := Obj Plain P] ! i)) k = map_of (own w (get w d g)) k"
            if "k \<notin> (T(f := T f \<union> K)) g" for k
            using that True i P [of k] table(4) [of k] \<open>j = i\<close> by simp
        qed
      next
        case False
        then have "j \<noteq> i"
          using shape_distinct [OF sh g f False table(2)] at by auto
        show ?thesis
        proof (rule field_ok_table [of j])
          show "j < length (new[i := Obj Plain P])" using table(1) by simp
          show "map_of F g = Some (JRef (length (heap w) + 1 + j))" by (rule table(2))
          show "kind (new[i := Obj Plain P] ! j) = Plain" using table(3) \<open>j \<noteq> i\<close> by simp
          show "map_of (props (new[i := Obj Plain P] ! j)) k = map_of (own w (get w d g)) k"
            if "k \<notin> (T(f := T f \<union> K)) g" for k
            using that False table(4) [of k] \<open>j \<noteq> i\<close> by simp
        qed
      qed
    qed
  next
    from sh have "gain_ok w d F new" by (simp add: shape_def)
    then show "gain_ok w d F (new[i := Obj Plain P])"
    proof (cases rule: gain_ok_cases)
      case shared
      then show ?thesis by (simp add: gain_ok_def)
    next
      case (made j)
      then have "j \<noteq> i" using i by auto
      then show ?thesis
        using made by (intro gain_ok_made [of j]) simp_all
    qed
  next
    fix g g' assume "g \<in> sub_fields" "g' \<in> sub_fields"
    then show "\<forall>v. g \<noteq> g' \<longrightarrow> map_of F g = Some v \<longrightarrow> map_of F g' \<noteq> Some v"
      using sh by (simp add: shape_def)
  qed
qed

text \<open>Storing in field \<open>f\<close> of the clone a plain object that no field refers to.\<close>

lemma shape_new_table:
  assumes sh: "shape w d T F new" and f: "f \<in> sub_fields"
    and j: "j < length new" "kind (new ! j) = Plain"
    and unused: "\<And>g. g \<in> sub_fields \<Longrightarrow> map_of F g \<noteq> Some (JRef (length (heap w) + 1 + j))"
    and P: "\<And>k. k \<notin> K \<Longrightarrow> map_of (props (new ! j)) k = map_of (own w (get w d f)) k"
  shows "shape w d (T(f := K)) (AList.update f (JRef (length (heap w) + 1 + j)) F) new"
proof -
  let ?F = "AList.update f (JRef (length (heap w) + 1 + j)) F"
  have fa: "f \<in> all_fields" "f \<noteq> ''masterGain''"
    using f by (auto simp: sub_fields_def all_fields_def)
  show ?thesis
    unfolding shape_def
  proof (intro conjI ballI)
    show "\<forall>g. g \<notin> all_fields \<longrightarrow> map_of ?F g = None"
      using sh fa by (auto simp: shape_def update_conv')
  next
    fix g assume g: "g \<in> sub_fields"
    show "field_ok w d (T(f := K)) ?F new g"
    proof (cases "g = f")
      case True
      show ?thesis
      proof (rule field_ok_table [of j])
        show "j < length new" by (rule j)
        show "map_of ?F g = Some (JRef (length (heap w) + 1 + j))" using True by (simp add: update_conv')
        show "kind (new ! j) = Plain" by (rule j)
        show "map_of (props (new ! j)) k = map_of (own w (get w d g)) k" if "k \<notin> (T(f := K)) g" for k
          using that True P [of k] by simp
      qed
    next
      case False
      then have same: "map_of ?F g = map_of F g" by (simp add: update_conv')
      from shape_field [OF sh g] show ?thesis
      proof (cases rule: field_ok_cases)
        case absent
        then show ?thesis using same False by (intro field_ok_absent) auto
      next
        case (table i)
        show ?thesis
        proof (rule field_ok_table [of i])
          show "i < length new" by (rule table)
          show "map_of ?F g = Some (JRef (length (heap w) + 1 + i))" using same table(2) by simp
          show "kind (new ! i) = Plain" by (rule table)
          show "map_of (props (new ! i)) k = map_of (own w (get w d g)) k" if "k \<notin> (T(f := K)) g" for k
            using that False table(4) [of k] by simp
        qed
      qed
    qed
  next
    have "map_of ?F ''masterGain'' = map_of F ''masterGain''"
      using fa by (simp add: update_conv')
    then show "gain_ok w d ?F new"
      using sh by (simp add: shape_def gain_ok_def)
  next
    fix g g' assume g: "g \<in> sub_fields" "g' \<in> sub_fields"
    show "\<forall>v. g \<noteq> g' \<longrightarrow> map_of ?F g = Some v \<longrightarrow> map_of ?F g' \<noteq> Some v"
    proof (intro allI impI)
      fix v assume ne: "g \<noteq> g'" and v: "map_of ?F g = Some v"
      show "map_of ?F g' \<noteq> Some v"
      proof (cases "g = f")
        case True
        then have "v = JRef (length (heap w) + 1 + j)" using v by (simp add: update_conv')
        moreover have "map_of ?F g' = map_of F g'" using ne True by (simp add: update_conv')
        ultimately show ?thesis using unused [OF g(2)] by simp
      next
        case gf: False
        then have vF: "map_of F g = Some v" using v by (simp add: update_conv')
        show ?thesis
        proof (cases "g' = f")
          case True
          then have "map_of ?F g' = Some (JRef (length (heap w) + 1 + j))" by (simp add: update_conv')
          then show ?thesis using unused [OF g(1)] vF by auto
        next
          case False
          then have "map_of ?F g' = map_of F g'" by (simp add: update_conv')
          then show ?thesis using shape_distinct [OF sh g ne vF] by simp
        qed
      qed
    qed
  qed
qed

text \<open>Storing a new gain node in the clone.\<close>

lemma shape_new_gain:
  assumes sh: "shape w d T F new" and j: "j < length new" "kind (new ! j) = GainNode"
  shows "shape w d T (AList.update ''masterGain'' (JRef (length (heap w) + 1 + j)) F) new"
proof -
  let ?F = "AList.update ''masterGain'' (JRef (length (heap w) + 1 + j)) F"
  have same: "map_of ?F g = map_of F g" if "g \<in> sub_fields" for g
    using that by (auto simp: update_conv' sub_fields_def)
  show ?thesis
    unfolding shape_def
  proof (intro conjI ballI)
    show "\<forall>g. g \<notin> all_fields \<longrightarrow> map_of ?F g = None"
      using sh by (auto simp: shape_def update_conv' all_fields_def)
  next
    fix g assume g: "g \<in> sub_fields"
    from shape_field [OF sh g] show "field_ok w d T ?F new g"
      unfolding field_ok_def same [OF g] .
  next
    show "gain_ok w d ?F new"
      using j by (intro gain_ok_made [of j]) (simp_all add: update_conv')
  next
    fix g g' assume g: "g \<in> sub_fields" "g' \<in> sub_fields"
    show "\<forall>v. g \<noteq> g' \<longrightarrow> map_of ?F g = Some v \<longrightarrow> map_of ?F g' \<noteq> Some v"
      unfolding same [OF g(1)] same [OF g(2)] using shape_distinct [OF sh g] by blast
  qed
qed

text \<open>Writing an object that is not plain, or a plain object that no field refers to.\<close>

lemma shape_other_update:
  assumes sh: "shape w d T F new" and k: "kind X = kind (new ! j)"
    and unused: "\<And>g. g \<in> sub_fields \<Longrightarrow> map_of F g \<noteq> Some (JRef (length (heap w) + 1 + j))"
  shows "shape w d T F (new[j := X])"
  unfolding shape_def
proof (intro conjI ballI)
  show "\<forall>g. g \<notin> all_fields \<longrightarrow> map_of F g = None"
    using sh by (simp add: shape_def)
next
  fix g assume g: "g \<in> sub_fields"
  from shape_field [OF sh g] show "field_ok w d T F (new[j := X]) g"
  proof (cases rule: field_ok_cases)
    case absent
    then show ?thesis by (intro field_ok_absent) auto
  next
    case (table i)
    then have "i \<noteq> j" using unused [OF g] by auto
    show ?thesis
    proof (rule field_ok_table [of i])
      show "i < length (new[j := X])" using table(1) by simp
      show "map_of F g = Some (JRef (length (heap w) + 1 + i))" by (rule table)
      show "kind (new[j := X] ! i) = Plain" using table(3) \<open>i \<noteq> j\<close> by simp
      show "map_of (props (new[j := X] ! i)) k = map_of (own w (get w d g)) k" if "k \<notin> T g" for k
        using that table(4) [of k] \<open>i \<noteq> j\<close> by simp
    qed
  qed
next
  from sh have "gain_ok w d F new" by (simp add: shape_def)
  then show "gain_ok w d F (new[j := X])"
  proof (cases rule: gain_ok_cases)
    case shared
    then show ?thesis by (simp add: gain_ok_def)
  next
    case (made i)
    have "kind (new[j := X] ! i) = GainNode"
      using made k by (cases "i = j") simp_all
    then show ?thesis
      using made by (intro gain_ok_made [of i]) simp_all
  qed
next
  fix g g' assume "g \<in> sub_fields" "g' \<in> sub_fields"
  then show "\<forall>v. g \<noteq> g' \<longrightarrow> map_of F g = Some v \<longrightarrow> map_of F g' \<noteq> Some v"
    using sh by (simp add: shape_def)
qed

lemma shape_unused_fresh:
  assumes "shape w d T F new" "g \<in> sub_fields" "length new \<le> j"
  shows "map_of F g \<noteq> Some (JRef (length (heap w) + 1 + j))"
  using shape_ref_bound [OF assms(1,2), of j] assms(3) by auto

lemma shape_unused_kind:
  assumes "shape w d T F new" "g \<in> sub_fields" "kind (new ! j) \<noteq> Plain"
  shows "map_of F g \<noteq> Some (JRef (length (heap w) + 1 + j))"
  using shape_ref_bound [OF assms(1,2), of j] assms(3) by auto

lemma cw_sel [simp]:
  "heap (clone_world w F new es) = heap w @ Obj Plain F # new"
  "trace (clone_world w F new es) = trace w @ es"
  "audioContext (clone_world w F new es) = audioContext w"
  "monads (clone_world w F new es) = monads w"
  by (simp_all add: clone_world_def)

lemma own_clone [simp]: "own (clone_world w F new es) (JRef (length (heap w))) = F"
  by (simp add: own_def)

lemma own_new [simp]:
  "i < length new \<Longrightarrow> own (clone_world w F new es) (JRef (Suc (length (heap w) + i))) = props (new ! i)"
  by (simp add: own_def nth_append)

lemma own_old [simp]: "denotes w v \<Longrightarrow> own (clone_world w F new es) v = own w v"
  by (cases v) (simp_all add: own_def denotes_def nth_append)

lemma get_clone: "get (clone_world w F new es) (JRef (length (heap w))) f =
    (case map_of F f of Some x \<Rightarrow> x | None \<Rightarrow> JUndefined)"
  by (simp add: get_def split: option.splits)

lemma get_new:
  "i < length new \<Longrightarrow> get (clone_world w F new es) (JRef (Suc (length (heap w) + i))) k =
    (case map_of (props (new ! i)) k of Some x \<Rightarrow> x | None \<Rightarrow> JUndefined)"
  by (simp add: get_def split: option.splits)

lemma get_old [simp]: "denotes w v \<Longrightarrow> get (clone_world w F new es) v k = get w v k"
  by (simp add: get_def)

lemma setp_clone [simp]:
  "f \<noteq> ''__proto__'' \<Longrightarrow> setp (JRef (length (heap w))) f v (clone_world w F new es)
    = (Inr (), clone_world w (AList.update f v F) new es)"
  by (simp add: setp_def nullish_def clone_world_def nth_append list_update_append)

lemma setp_new [simp]:
  "i < length new \<Longrightarrow> k \<noteq> ''__proto__''
    \<Longrightarrow> setp (JRef (Suc (length (heap w) + i))) k v (clone_world w F new es)
    = (Inr (), clone_world w F (new[i := Obj (kind (new ! i)) (AList.update k v (props (new ! i)))]) es)"
  by (simp add: setp_def nullish_def clone_world_def nth_append list_update_append)

lemma setp_new_proto:
  "i < length new \<Longrightarrow> setp (JRef (Suc (length (heap w) + i))) ''__proto__'' v (clone_world w F new es)
    = (Inl Unmodelled, clone_world w F new es)"
  by (simp add: setp_def nullish_def clone_world_def)

lemma delp_new [simp]:
  "i < length new \<Longrightarrow> delp (JRef (Suc (length (heap w) + i))) k (clone_world w F new es)
    = (Inr (), clone_world w F (new[i := Obj (kind (new ! i)) (AList.delete k (props (new ! i)))]) es)"
  by (simp add: delp_def nullish_def clone_world_def nth_append list_update_append)

lemma new_object_cw [simp]:
  "new_object k (clone_world w F new es)
    = (Inr (JRef (Suc (length (heap w) + length new))), clone_world w F (new @ [Obj k []]) es)"
  by (simp add: new_object_def clone_world_def)

lemma emit_cw [simp]:
  "emit e (clone_world w F new es) = (Inr (), clone_world w F new (es @ [e]))"
  by (simp add: emit_def clone_world_def)

lemma kind_at_old: "denotes w (JRef a) \<Longrightarrow> kind_at (clone_world w F new es) a = kind_at w a"
  by (simp add: kind_at_def denotes_def nth_append)

lemma to_key_cw:
  assumes "denotes w v"
  shows "to_key v (clone_world w F new es) =
    (fst (to_key v w), clone_world w F new es)"
proof (cases v)
  case (JRef a)
  then show ?thesis
    using assms kind_at_old [of w a F new es] by (simp add: to_key_def)
qed (simp_all add: to_key_def)

lemma to_key_world: "to_key v w = (r, w') \<Longrightarrow> w' = w"
  by (auto simp: to_key_def split: val.splits if_splits)

lemma partial_clone_world:
  assumes "partial_clone w d all_fields w1"
  obtains F new where "w1 = clone_world w F new []" "shape w d (\<lambda>f. {}) F new"
proof -
  from assms obtain F new where "w1 = w\<lparr>heap := heap w @ Obj Plain F # new\<rparr>"
    "clone_shape w d all_fields F new"
    unfolding partial_clone_def by blast
  then have "w1 = clone_world w F new []" "shape w d (\<lambda>f. {}) F new"
    by (simp_all add: clone_world_def clone_shape_shape)
  then show ?thesis by (rule that)
qed

lemma fresh_cloneI:
  assumes sh: "shape w d T F new"
  shows "fresh_clone w d (clone_world w F new es) (JRef (length (heap w))) T"
proof -
  let ?n = "length (heap w)"
  let ?w = "clone_world w F new es"
  let ?c = "JRef ?n"
  have other: "\<forall>f. f \<notin> all_fields \<longrightarrow> get ?w ?c f = JUndefined"
    using sh by (simp add: shape_def get_clone)
  have subs: "(get ?w ?c f = JUndefined
               \<or> (\<exists>b. get ?w ?c f = JRef b \<and> ?n \<le> b \<and> b < length (heap ?w) \<and> b \<noteq> ?n
                     \<and> kind (heap ?w ! b) = Plain))
              \<and> (\<forall>k. k \<notin> T f \<longrightarrow> map_of (own ?w (get ?w ?c f)) k = map_of (own w (get w d f)) k)"
    if f: "f \<in> sub_fields" for f
    using shape_field [OF sh f]
  proof (cases rule: field_ok_cases)
    case absent
    then have "get ?w ?c f = JUndefined" by (simp add: get_clone)
    then show ?thesis using absent(2) by (simp add: own_def)
  next
    case (table i)
    have g: "get ?w ?c f = JRef (Suc (?n + i))"
      using table(2) by (simp add: get_clone)
    have "?n \<le> Suc (?n + i) \<and> Suc (?n + i) < length (heap ?w) \<and> Suc (?n + i) \<noteq> ?n
        \<and> kind (heap ?w ! Suc (?n + i)) = Plain"
      using table(1,3) by (simp add: nth_append)
    then have "\<exists>b. get ?w ?c f = JRef b \<and> ?n \<le> b \<and> b < length (heap ?w) \<and> b \<noteq> ?n
                     \<and> kind (heap ?w ! b) = Plain"
      using g by blast
    moreover have "\<forall>k. k \<notin> T f \<longrightarrow> map_of (own ?w (get ?w ?c f)) k = map_of (own w (get w d f)) k"
      using table(1,4) by (simp add: g)
    ultimately show ?thesis by blast
  qed
  have gain: "get ?w ?c ''masterGain'' = get w d ''masterGain''
             \<or> (\<not> truthy (get w d ''masterGain'') \<and> get ?w ?c ''masterGain'' = JUndefined)
             \<or> (\<exists>g. get ?w ?c ''masterGain'' = JRef g \<and> ?n \<le> g \<and> g < length (heap ?w)
                   \<and> kind (heap ?w ! g) = GainNode)"
  proof -
    from sh have "gain_ok w d F new" by (simp add: shape_def)
    then show ?thesis
    proof (cases rule: gain_ok_cases)
      case shared
      then show ?thesis by (simp add: get_clone)
    next
      case (made i)
      have "get ?w ?c ''masterGain'' = JRef (Suc (?n + i)) \<and> ?n \<le> Suc (?n + i)
          \<and> Suc (?n + i) < length (heap ?w) \<and> kind (heap ?w ! Suc (?n + i)) = GainNode"
        using made by (simp add: get_clone nth_append)
      then show ?thesis by blast
    qed
  qed
  have "?c = JRef ?n \<and> ?n \<le> ?n \<and> ?n < length (heap ?w) \<and> kind (heap ?w ! ?n) = Plain"
    by (simp add: nth_append)
  with other subs gain show ?thesis
    unfolding fresh_clone_def by blast
qed

lemma removeSound_alt: "removeSound = remove_entry ''audioBuffers''"
  by (intro ext) (simp add: removeSound_def remove_entry_def)

lemma removeLocation_alt: "removeLocation = remove_entry ''locations''"
  by (intro ext) (simp add: removeLocation_def remove_entry_def)

lemma field_ok_mono:
  assumes "field_ok w d T F new f" "T f \<subseteq> T' f"
  shows "field_ok w d T' F new f"
  using assms(1)
proof (cases rule: field_ok_cases)
  case absent
  then show ?thesis using assms(2) by (intro field_ok_absent) auto
next
  case (table i)
  show ?thesis
  proof (rule field_ok_table [of i])
    show "map_of (props (new ! i)) k = map_of (own w (get w d f)) k" if "k \<notin> T' f" for k
      using that table(4) [of k] assms(2) by auto
  qed (use table in simp_all)
qed

lemma shape_mono:
  assumes "shape w d T F new" "\<And>f. T f \<subseteq> T' f"
  shows "shape w d T' F new"
proof -
  have "field_ok w d T' F new f" if "f \<in> sub_fields" for f
    using shape_field [OF assms(1) that] assms(2) [of f] by (rule field_ok_mono)
  then show ?thesis
    using assms(1) by (simp add: shape_def)
qed

lemma after_clone:
  assumes run: "bnd (cloneData s) rest w = (Inr s', w')" and s: "state_in w s"
  obtains F new where "shape w s (\<lambda>f. {}) F new"
    "rest (JRef (length (heap w))) (clone_world w F new []) = (Inr s', w')"
proof -
  from run obtain c w1 where c: "cloneData s w = (Inr c, w1)" and rest: "rest c w1 = (Inr s', w')"
    by (auto elim!: bndE)
  from cloneData_spec [OF c] s have "c = JRef (length (heap w))" "partial_clone w s all_fields w1"
    by (simp_all add: state_in_def)
  from partial_clone_world [OF this(2)] obtain F new where
    "w1 = clone_world w F new []" "shape w s (\<lambda>f. {}) F new" by blast
  with rest \<open>c = JRef (length (heap w))\<close> show ?thesis
    by (intro that [of F new]) simp_all
qed

lemma remove_entry_spec:
  assumes run: "remove_entry f s args w = (Inr s', w')" and s: "state_in w s"
    and f: "f \<in> sub_fields" and a: "denotes w (arg args 0)"
  shows "\<exists>F new. s' = JRef (length (heap w)) \<and> w' = clone_world w F new []
    \<and> shape w s ((\<lambda>f. {})(f := key_set w (arg args 0))) F new
    \<and> (\<forall>k i. k \<in> key_set w (arg args 0) \<longrightarrow> map_of F f = Some (JRef (Suc (length (heap w) + i)))
          \<longrightarrow> map_of (props (new ! i)) k = None)"
proof -
  let ?n = "length (heap w)"
  let ?id = "arg args 0"
  let ?T = "(\<lambda>f. {})(f := key_set w ?id)"
  from run have "bnd (cloneData s) (\<lambda>newValue.
     bnd (getp newValue f) (\<lambda>b.
     bnd (if truthy b then bnd (to_key ?id) (delp b) else ret ()) (\<lambda>_.
     ret newValue))) w = (Inr s', w')"
    by (simp add: remove_entry_def)
  from after_clone [OF this s] obtain F new where sh: "shape w s (\<lambda>f. {}) F new"
    and rest: "bnd (getp (JRef ?n) f) (\<lambda>b.
     bnd (if truthy b then bnd (to_key ?id) (delp b) else ret ()) (\<lambda>_.
     ret (JRef ?n))) (clone_world w F new []) = (Inr s', w')"
    by blast
  have ni: "\<not> inherits wx v f" for wx v
    using f by (auto simp: sub_fields_def)
  from shape_field [OF sh f] show ?thesis
  proof (cases rule: field_ok_cases)
    case absent
    then have "s' = JRef ?n" "w' = clone_world w F new []"
      using rest by (simp_all add: bnd_def getp_def nullish_def get_clone ret_def ni)
    moreover have "shape w s ?T F new"
      using sh by (rule shape_mono) simp
    ultimately show ?thesis
      using absent(1) by (intro exI [of _ F] exI [of _ new]) simp
  next
    case (table i)
    have b: "get (clone_world w F new []) (JRef ?n) f = JRef (Suc (?n + i))"
      using table(2) by (simp add: get_clone)
    obtain k where k: "fst (to_key ?id w) = Inr k"
      using rest b table(1) to_key_cw [OF a, of F new "[]"]
      by (cases "fst (to_key ?id w)") (simp_all add: bnd_def getp_def nullish_def ret_def ni)
    let ?new = "new[i := Obj (kind (new ! i)) (AList.delete k (props (new ! i)))]"
    have res: "s' = JRef ?n" "w' = clone_world w F ?new []"
      using rest b table(1) k to_key_cw [OF a, of F new "[]"]
      by (simp_all add: bnd_def getp_def nullish_def ret_def ni)
    have ks: "key_set w ?id = {k}"
      using k by (auto simp: key_set_def)
    have "shape w s ((\<lambda>f. {})(f := {} \<union> {k})) F (new[i := Obj Plain (AList.delete k (props (new ! i)))])"
    proof (rule shape_table_update [OF sh f])
      show "map_of F f = Some (JRef (length (heap w) + 1 + i))" using table(2) by simp
      show "map_of (AList.delete k (props (new ! i))) k' = map_of (props (new ! i)) k'" if "k' \<notin> {k}" for k'
        using that by (simp add: delete_conv')
    qed
    then have sh': "shape w s ?T F ?new"
      using table(3) ks by simp
    have "\<forall>k' j. k' \<in> key_set w ?id \<longrightarrow> map_of F f = Some (JRef (Suc (?n + j)))
          \<longrightarrow> map_of (props (?new ! j)) k' = None"
      using table(1,2) ks by (auto simp: delete_conv')
    with res sh' show ?thesis
      by (intro exI [of _ F] exI [of _ ?new]) simp
  qed
qed

lemma denotes_append: "denotes w v \<Longrightarrow> denotes (w\<lparr>heap := heap w @ new\<rparr>) v"
  by (cases v) (simp_all add: denotes_def)

lemma getAudioBuffers_spec:
  assumes run: "getAudioBuffers s args w = (Inr t, w')"
    and s: "denotes w s" "denotes w (get w s ''audioBuffers'')"
  shows "\<exists>P new. t = JRef (length (heap w) + length new) \<and> w' = w\<lparr>heap := heap w @ new @ [Obj Plain P]\<rparr>
    \<and> map_of P = map_of (own w (get w s ''audioBuffers''))"
proof -
  let ?n = "length (heap w)"
  let ?w0 = "w\<lparr>heap := heap w @ [Obj Plain []]\<rparr>"
  let ?b = "get w s ''audioBuffers''"
  have nn: "\<not> nullish s"
    using run by (auto simp: getAudioBuffers_def bnd_def new_object_def getp_def split: if_splits)
  have b0: "get ?w0 s ''audioBuffers'' = ?b"
    using s(1) by (rule get_append)
  show ?thesis
  proof (cases "truthy ?b")
    case False
    then have "t = JRef ?n" "w' = ?w0"
      using run nn b0 by (simp_all add: getAudioBuffers_def bnd_def new_object_def getp_def ret_def)
    moreover have "map_of [] = map_of (own w ?b)"
      using False by (simp add: falsy_own)
    ultimately show ?thesis
      by (intro exI [of _ "[]"]) simp
  next
    case True
    then have sc: "shallowCopy ?b ?w0 = (Inr t, w')"
      using run nn b0 by (simp add: getAudioBuffers_def bnd_def new_object_def getp_def)
    have "denotes ?w0 ?b" using s(2) by (rule denotes_append)
    from shallowCopy_spec [OF sc this] obtain P where
      P: "w' = ?w0\<lparr>heap := heap ?w0 @ [Obj Plain P]\<rparr>" "t = JRef (length (heap ?w0))"
        "map_of P = map_of (own ?w0 ?b)"
      by auto
    have "own ?w0 ?b = own w ?b" using s(2) by (rule own_append)
    with P show ?thesis
      by (intro exI [of _ P] exI [of _ "[Obj Plain []]"]) simp
  qed
qed

lemma own_last: "own (w\<lparr>heap := heap w @ new @ [Obj k P]\<rparr>) (JRef (length (heap w) + length new)) = P"
  by (simp add: own_def nth_append)

lemma get_of_own: "map_of (own w v) k = None \<Longrightarrow> \<not> is_str v \<Longrightarrow> get w v k = JUndefined"
  by (cases v) (simp_all add: get_def)

lemma removeSound_then_get:
  assumes s: "state_in w s" and a: "denotes w (arg args 0)"
    and rm: "removeSound s args w = (Inr s1, w1)"
    and gt: "getAudioBuffers s1 args' w1 = (Inr t, w2)"
    and k: "k \<in> key_set w (arg args 0)"
  shows "map_of (own w2 t) k = None \<and> get w2 t k = JUndefined"
proof -
  let ?n = "length (heap w)"
  from remove_entry_spec [OF rm [unfolded removeSound_alt] s _ a]
  obtain F new where s1: "s1 = JRef ?n" and w1: "w1 = clone_world w F new []"
    and sh: "shape w s ((\<lambda>f. {})(''audioBuffers'' := key_set w (arg args 0))) F new"
    and gone: "\<And>i. map_of F ''audioBuffers'' = Some (JRef (Suc (?n + i)))
          \<Longrightarrow> map_of (props (new ! i)) k = None"
    using k by (auto simp: sub_fields_def)
  have ab: "''audioBuffers'' \<in> sub_fields" by (simp add: sub_fields_def)
  have d1: "denotes w1 s1"
    by (simp add: s1 w1 denotes_def)
  have "denotes w1 (get w1 s1 ''audioBuffers'') \<and> map_of (own w1 (get w1 s1 ''audioBuffers'')) k = None"
    using shape_field [OF sh ab]
  proof (cases rule: field_ok_cases)
    case absent
    then show ?thesis by (simp add: s1 w1 get_clone denotes_def own_def)
  next
    case (table i)
    then show ?thesis using gone [of i] by (simp add: s1 w1 get_clone denotes_def)
  qed
  then have d2: "denotes w1 (get w1 s1 ''audioBuffers'')"
    and none: "map_of (own w1 (get w1 s1 ''audioBuffers'')) k = None"
    by simp_all
  from getAudioBuffers_spec [OF gt d1 d2] obtain P extra where
    "t = JRef (length (heap w1) + length extra)" "w2 = w1\<lparr>heap := heap w1 @ extra @ [Obj Plain P]\<rparr>"
    "map_of P = map_of (own w1 (get w1 s1 ''audioBuffers''))"
    by blast
  then have "own w2 t = P" "map_of P k = None" "\<not> is_str t"
    using none by (simp_all add: own_last)
  then show ?thesis
    by (simp add: get_of_own)
qed

lemma getAudioBuffers_twice:
  assumes s: "denotes w s" "denotes w (get w s ''audioBuffers'')"
    and g1: "getAudioBuffers s args1 w = (Inr t1, wa)"
    and g2: "getAudioBuffers s args2 wa = (Inr t2, wb)"
  shows "\<exists>a1 a2. t1 = JRef a1 \<and> t2 = JRef a2 \<and> a1 \<noteq> a2
      \<and> length (heap w) \<le> a1 \<and> a1 < length (heap wb) \<and> length (heap w) \<le> a2 \<and> a2 < length (heap wb)
      \<and> kind (heap wb ! a1) = Plain \<and> kind (heap wb ! a2) = Plain
      \<and> map_of (own wb t1) = map_of (own wb t2)
      \<and> map_of (own wb t1) = map_of (own w (get w s ''audioBuffers''))"
proof -
  let ?b = "get w s ''audioBuffers''"
  from getAudioBuffers_spec [OF g1 s] obtain P1 new1 where
    1: "t1 = JRef (length (heap w) + length new1)" "wa = w\<lparr>heap := heap w @ new1 @ [Obj Plain P1]\<rparr>"
      "map_of P1 = map_of (own w ?b)"
    by blast
  have sa: "denotes wa s"
    unfolding 1(2) using s(1) by (rule denotes_append)
  have ga: "get wa s ''audioBuffers'' = ?b"
    unfolding 1(2) using s(1) by (rule get_append)
  have da: "denotes wa (get wa s ''audioBuffers'')"
    unfolding ga unfolding 1(2) using s(2) by (rule denotes_append)
  have oa: "own wa ?b = own w ?b"
    unfolding 1(2) using s(2) by (rule own_append)
  from getAudioBuffers_spec [OF g2 sa da] obtain P2 new2 where
    2: "t2 = JRef (length (heap wa) + length new2)" "wb = wa\<lparr>heap := heap wa @ new2 @ [Obj Plain P2]\<rparr>"
      "map_of P2 = map_of (own wa (get wa s ''audioBuffers''))"
    by blast
  let ?a1 = "length (heap w) + length new1"
  let ?a2 = "length (heap wa) + length new2"
  have o1: "own wb t1 = P1" and k1: "kind (heap wb ! ?a1) = Plain"
    unfolding 1(1) 2(2) by (simp_all add: 1(2) own_def nth_append)
  have o2: "own wb t2 = P2" and k2: "kind (heap wb ! ?a2) = Plain"
    unfolding 2(1) 2(2) by (simp_all add: own_def nth_append)
  have "t1 = JRef ?a1 \<and> t2 = JRef ?a2 \<and> ?a1 \<noteq> ?a2
      \<and> length (heap w) \<le> ?a1 \<and> ?a1 < length (heap wb) \<and> length (heap w) \<le> ?a2 \<and> ?a2 < length (heap wb)
      \<and> kind (heap wb ! ?a1) = Plain \<and> kind (heap wb ! ?a2) = Plain
      \<and> map_of (own wb t1) = map_of (own wb t2)
      \<and> map_of (own wb t1) = map_of (own w ?b)"
    using 1 2 o1 o2 k1 k2 ga oa by simp
  then show ?thesis by blast
qed

section \<open>Removing a sound and reading the buffers\<close>

text \<open>
  Claim C8. In a world where the state and its sub-mappings denote objects, for an
  identifier that is a string: the mapping that \<open>getAudioBuffers\<close> returns for the result
  of \<open>removeSound(state, id)\<close> has no own entry under \<open>id\<close>; and two calls of
  \<open>getAudioBuffers\<close> on the same state return two different new plain objects with the
  same own entries, those of the state's buffer table (none when the state has no table)
  but for the key \<open>__proto__\<close>, under which an assignment makes no entry.
\<close>

theorem removeSound_getAudioBuffers:
  assumes "state_in w s"
  shows "(\<forall>k rest s1 w1 t w2 args'. removeSound s (JStr k # rest) w = (Inr s1, w1)
            \<longrightarrow> getAudioBuffers s1 args' w1 = (Inr t, w2)
            \<longrightarrow> map_of (own w2 t) k = None)
    \<and> (\<forall>args1 args2 t1 wa t2 wb. getAudioBuffers s args1 w = (Inr t1, wa)
            \<longrightarrow> getAudioBuffers s args2 wa = (Inr t2, wb)
            \<longrightarrow> (\<exists>a1 a2. t1 = JRef a1 \<and> t2 = JRef a2 \<and> a1 \<noteq> a2
                  \<and> length (heap w) \<le> a1 \<and> a1 < length (heap wb)
                  \<and> length (heap w) \<le> a2 \<and> a2 < length (heap wb)
                  \<and> kind (heap wb ! a1) = Plain \<and> kind (heap wb ! a2) = Plain
                  \<and> map_of (own wb t1) = map_of (own wb t2)
                  \<and> (\<forall>k. k \<noteq> ''__proto__'' \<longrightarrow>
                        map_of (own wb t1) k = map_of (own w (get w s ''audioBuffers'')) k)))"
proof (rule conjI; intro allI impI)
  fix k rest s1 w1 t w2 args'
  assume rm: "removeSound s (JStr k # rest) w = (Inr s1, w1)"
    and gt: "getAudioBuffers s1 args' w1 = (Inr t, w2)"
  have a: "denotes w (arg (JStr k # rest) 0)" by (simp add: arg_def denotes_def)
  have k: "k \<in> key_set w (arg (JStr k # rest) 0)" by (simp add: key_set_def to_key_def arg_def)
  from removeSound_then_get [OF assms a rm gt k] show "map_of (own w2 t) k = None" by simp
next
  fix args1 args2 t1 wa t2 wb
  assume "getAudioBuffers s args1 w = (Inr t1, wa)" "getAudioBuffers s args2 wa = (Inr t2, wb)"
  moreover have "denotes w s" "denotes w (get w s ''audioBuffers'')"
    using assms(1) by (simp_all add: state_in_def)
  ultimately have "\<exists>a1 a2. t1 = JRef a1 \<and> t2 = JRef a2 \<and> a1 \<noteq> a2
                  \<and> length (heap w) \<le> a1 \<and> a1 < length (heap wb)
                  \<and> length (heap w) \<le> a2 \<and> a2 < length (heap wb)
                  \<and> kind (heap wb ! a1) = Plain \<and> kind (heap wb ! a2) = Plain
                  \<and> map_of (own wb t1) = map_of (own wb t2)
                  \<and> map_of (own wb t1) = map_of (own w (get w s ''audioBuffers''))"
    using getAudioBuffers_twice by blast
  then show "\<exists>a1 a2. t1 = JRef a1 \<and> t2 = JRef a2 \<and> a1 \<noteq> a2
                  \<and> length (heap w) \<le> a1 \<and> a1 < length (heap wb)
                  \<and> length (heap w) \<le> a2 \<and> a2 < length (heap wb)
                  \<and> kind (heap wb ! a1) = Plain \<and> kind (heap wb ! a2) = Plain
                  \<and> map_of (own wb t1) = map_of (own wb t2)
                  \<and> (\<forall>k. k \<noteq> ''__proto__'' \<longrightarrow>
                        map_of (own wb t1) k = map_of (own w (get w s ''audioBuffers'')) k)"
    by auto
qed

theorem removeSound_getAudioBuffers_witness:
  "removeSound (JRef 0) [JStr ''x''] sample_world =
     (Inr (JRef 3), sample_world\<lparr>heap := heap sample_world @
        [Obj Plain [(''audioBuffers'', JRef 4)], Obj Plain [(''y'', JStr ''pending'')]]\<rparr>)
   \<and> getAudioBuffers (JRef 3) [] (sample_world\<lparr>heap := heap sample_world @
        [Obj Plain [(''audioBuffers'', JRef 4)], Obj Plain [(''y'', JStr ''pending'')]]\<rparr>) =
     (Inr (JRef 6), sample_world\<lparr>heap := heap sample_world @
        [Obj Plain [(''audioBuffers'', JRef 4)], Obj Plain [(''y'', JStr ''pending'')],
         Obj Plain [], Obj Plain [(''y'', JStr ''pending'')]]\<rparr>)
   \<and> map_of (own (sample_world\<lparr>heap := heap sample_world @
        [Obj Plain [(''audioBuffers'', JRef 4)], Obj Plain [(''y'', JStr ''pending'')],
         Obj Plain [], Obj Plain [(''y'', JStr ''pending'')]]\<rparr>) (JRef 6)) ''x'' = None"
proof -
  have st: "state_in sample_world (JRef 0)"
    by (simp add: state_in_def denotes_def get_def own_def sample_world_def)
  have rm: "removeSound (JRef 0) [JStr ''x''] sample_world =
     (Inr (JRef 3), sample_world\<lparr>heap := heap sample_world @
        [Obj Plain [(''audioBuffers'', JRef 4)], Obj Plain [(''y'', JStr ''pending'')]]\<rparr>)"
    by code_simp
  have gt: "getAudioBuffers (JRef 3) [] (sample_world\<lparr>heap := heap sample_world @
        [Obj Plain [(''audioBuffers'', JRef 4)], Obj Plain [(''y'', JStr ''pending'')]]\<rparr>) =
     (Inr (JRef 6), sample_world\<lparr>heap := heap sample_world @
        [Obj Plain [(''audioBuffers'', JRef 4)], Obj Plain [(''y'', JStr ''pending'')],
         Obj Plain [], Obj Plain [(''y'', JStr ''pending'')]]\<rparr>)"
    by code_simp
  from removeSound_getAudioBuffers [OF st] rm gt
  have "map_of (own (sample_world\<lparr>heap := heap sample_world @
        [Obj Plain [(''audioBuffers'', JRef 4)], Obj Plain [(''y'', JStr ''pending'')],
         Obj Plain [], Obj Plain [(''y'', JStr ''pending'')]]\<rparr>) (JRef 6)) ''x'' = None"
    by blast
  with rm gt show ?thesis by simp
qed

lemma split1_world: "split1 d w = (r, w') \<Longrightarrow> w' = w"
  by (auto simp: split1_def ret_def throw_def split: val.splits list.splits)

lemma base64_world: "base64ToArrayBuffer d w = (r, w') \<Longrightarrow> w' = w"
  by (auto simp: base64ToArrayBuffer_def ret_def throw_def split: val.splits)

lemma getp_world: "getp v k w = (r, w') \<Longrightarrow> w' = w"
  by (auto simp: getp_def split: if_splits)

lemma decode_cw:
  "decodeAudioData buff t i (clone_world w F new es) = (Inr u, W')
    \<Longrightarrow> W' = clone_world w F new (es @ [DecodeAudioData buff t i])"
  by (auto simp: decodeAudioData_def split: if_splits)

lemma bnd_step: "bnd f g w = (r, w') \<Longrightarrow> f w = (Inr x, w1) \<Longrightarrow> g x w1 = (r, w')"
  by (simp add: bnd_def)

lemma bnd_fail: "bnd f g w = (Inr y, w') \<Longrightarrow> f w = (Inl e, w1) \<Longrightarrow> False"
  by (simp add: bnd_def)

lemma bnd_InrD:
  assumes "bnd f g w = (Inr y, w')"
  obtains x w1 where "f w = (Inr x, w1)" "g x w1 = (Inr y, w')"
  using assms by (cases "f w"; cases "fst (f w)") (auto simp: bnd_def)

lemma getp_clone_field:
  "\<not> inherits (clone_world w F new es) (JRef (length (heap w))) f \<Longrightarrow>
   getp (JRef (length (heap w))) f (clone_world w F new es) =
     (Inr (case map_of F f of Some x \<Rightarrow> x | None \<Rightarrow> JUndefined), clone_world w F new es)"
  by (simp add: getp_def nullish_def get_clone)

text \<open>What \<open>addSound\<close> leaves when it returns.\<close>

lemma addSound_spec:
  assumes run: "addSound s args w = (Inr s', w')" and s: "state_in w s"
    and a: "denotes w (arg args 0)"
  shows "\<exists>F new i buff k. s' = JRef (length (heap w))
    \<and> w' = clone_world w F new [DecodeAudioData buff (JRef (Suc (length (heap w) + i))) (arg args 0)]
    \<and> shape w s ((\<lambda>f. {})(''audioBuffers'' := key_set w (arg args 0))) F new
    \<and> map_of F ''audioBuffers'' = Some (JRef (Suc (length (heap w) + i))) \<and> i < length new
    \<and> key_set w (arg args 0) = {k} \<and> map_of (props (new ! i)) k = Some (JStr ''pending'')"
proof -
  let ?n = "length (heap w)"
  let ?id = "arg args 0"
  let ?tail = "\<lambda>newValue audioBuffers. bnd (split1 (arg args 1)) (\<lambda>payload.
     bnd (base64ToArrayBuffer payload) (\<lambda>buff.
     bnd (decodeAudioData buff audioBuffers ?id) (\<lambda>_.
     ret newValue)))"
  let ?rest = "\<lambda>newValue. bnd (getp newValue ''audioBuffers'') (\<lambda>audioBuffers.
     bnd (to_key ?id) (\<lambda>k.
     bnd (setp audioBuffers k (JStr ''pending'')) (\<lambda>_. ?tail newValue audioBuffers)))"
  from run have "bnd (cloneData s) ?rest w = (Inr s', w')"
    by (simp add: addSound_def Let_def)
  from after_clone [OF this s] obtain F new where sh: "shape w s (\<lambda>f. {}) F new"
    and rest: "?rest (JRef ?n) (clone_world w F new []) = (Inr s', w')"
    by blast
  let ?W = "clone_world w F new []"
  let ?v = "case map_of F ''audioBuffers'' of Some x \<Rightarrow> x | None \<Rightarrow> JUndefined"
  have ab: "''audioBuffers'' \<in> sub_fields" by (simp add: sub_fields_def)
  have r1: "bnd (to_key ?id) (\<lambda>k.
     bnd (setp ?v k (JStr ''pending'')) (\<lambda>_. ?tail (JRef ?n) ?v)) ?W = (Inr s', w')"
    using bnd_step [OF rest getp_clone_field [OF inherits_field(4)]] .
  have tk: "to_key ?id ?W = (fst (to_key ?id w), ?W)"
    using a by (rule to_key_cw)
  obtain k where k: "fst (to_key ?id w) = Inr k"
  proof (cases "fst (to_key ?id w)")
    case (Inl e)
    then have "to_key ?id ?W = (Inl e, ?W)" using tk by simp
    from bnd_fail [OF r1 this] show ?thesis ..
  next
    case (Inr k)
    then show ?thesis by (rule that)
  qed
  have tk': "to_key ?id ?W = (Inr k, ?W)"
    using tk k by simp
  have r2: "bnd (setp ?v k (JStr ''pending'')) (\<lambda>_. ?tail (JRef ?n) ?v) ?W = (Inr s', w')"
    using bnd_step [OF r1 tk'] .
  have ks: "key_set w ?id = {k}"
    using k by (auto simp: key_set_def)
  from shape_field [OF sh ab] show ?thesis
  proof (cases rule: field_ok_cases)
    case absent
    then have "setp ?v k (JStr ''pending'') ?W = (Inl TypeError, ?W)"
      by (simp add: setp_def nullish_def)
    from bnd_fail [OF r2 this] show ?thesis ..
  next
    case (table i)
    let ?t = "JRef (Suc (?n + i))"
    let ?new = "new[i := Obj (kind (new ! i)) (AList.update k (JStr ''pending'') (props (new ! i)))]"
    let ?W1 = "clone_world w F ?new []"
    have v: "?v = ?t" using table(2) by simp
    have np: "k \<noteq> ''__proto__''"
    proof
      assume "k = ''__proto__''"
      then have "setp ?t k (JStr ''pending'') ?W = (Inl Unmodelled, ?W)"
        using table(1) by (simp add: setp_new_proto)
      from bnd_fail [OF r2 [unfolded v] this] show False .
    qed
    have st: "setp ?t k (JStr ''pending'') ?W = (Inr (), ?W1)"
      using table(1) np by simp
    have r3: "?tail (JRef ?n) ?t ?W1 = (Inr s', w')"
      using bnd_step [OF r2 [unfolded v] st] .
    from r3 obtain payload Wa where p1: "split1 (arg args 1) ?W1 = (Inr payload, Wa)"
      and r4: "bnd (base64ToArrayBuffer payload) (\<lambda>buff.
         bnd (decodeAudioData buff ?t ?id) (\<lambda>_. ret (JRef ?n))) Wa = (Inr s', w')"
      by (rule bnd_InrD)
    have Wa: "Wa = ?W1" using p1 by (rule split1_world)
    from r4 obtain buff Wb where p2: "base64ToArrayBuffer payload Wa = (Inr buff, Wb)"
      and r5: "bnd (decodeAudioData buff ?t ?id) (\<lambda>_. ret (JRef ?n)) Wb = (Inr s', w')"
      by (rule bnd_InrD)
    have Wb: "Wb = ?W1" using p2 Wa base64_world by blast
    from r5 obtain u Wc where p3: "decodeAudioData buff ?t ?id Wb = (Inr u, Wc)"
      and r6: "ret (JRef ?n) Wc = (Inr s', w')"
      by (rule bnd_InrD)
    have Wc: "Wc = clone_world w F ?new ([] @ [DecodeAudioData buff ?t ?id])"
      using p3 unfolding Wb by (rule decode_cw)
    have res: "s' = JRef ?n" "w' = clone_world w F ?new [DecodeAudioData buff ?t ?id]"
      using r6 Wc by (simp_all add: ret_def)
    have "shape w s ((\<lambda>f. {})(''audioBuffers'' := {} \<union> {k})) F
        (new[i := Obj Plain (AList.update k (JStr ''pending'') (props (new ! i)))])"
    proof (rule shape_table_update [OF sh ab])
      show "map_of F ''audioBuffers'' = Some (JRef (length (heap w) + 1 + i))" using table(2) by simp
      show "map_of (AList.update k (JStr ''pending'') (props (new ! i))) k' = map_of (props (new ! i)) k'"
        if "k' \<notin> {k}" for k'
        using that by (simp add: update_conv')
    qed
    then have sh': "shape w s ((\<lambda>f. {})(''audioBuffers'' := key_set w ?id)) F ?new"
      using table(3) ks by simp
    have pend: "map_of (props (?new ! i)) k = Some (JStr ''pending'')"
      using table(1) by (simp add: update_conv')
    have il: "i < length ?new" using table(1) by simp
    show ?thesis
      using res sh' table(2) il ks pend
      by (intro exI [of _ F] exI [of _ ?new] exI [of _ i] exI [of _ buff] exI [of _ k]) simp
  qed
qed

lemma hasOwnProperty_world: "hasOwnProperty src k w = (r, w') \<Longrightarrow> w' = w"
  by (auto simp: hasOwnProperty_def split: if_splits)

lemma for_in_ConsD:
  assumes "for_in src (k # ks) body w = (Inr (), w')"
  obtains b w1 where "hasOwnProperty src k w = (Inr b, w)"
    "if b then body k w = (Inr (), w1) else w1 = w"
    "for_in src ks body w1 = (Inr (), w')"
proof -
  obtain r0 w0 where h: "hasOwnProperty src k w = (r0, w0)" by fastforce
  then have w0: "w0 = w" by (rule hasOwnProperty_world)
  from assms h obtain b where b: "r0 = Inr b"
    by (cases r0) simp_all
  show ?thesis
  proof (cases b)
    case True
    obtain r1 w1 where body: "body k w = (r1, w1)" by fastforce
    with assms h b w0 True have "r1 = Inr ()" "for_in src ks body w1 = (Inr (), w')"
      by (cases r1; simp)+
    with h b w0 True body show ?thesis
      by (intro that [of b w1]) simp_all
  next
    case False
    with assms h b w0 have "for_in src ks body w = (Inr (), w')" by simp
    with h b w0 False show ?thesis
      by (intro that [of b w]) simp_all
  qed
qed

lemma sound_body_step:
  assumes run: "sound_body src (JRef (Suc (length (heap w) + j))) k (clone_world w F new es) = (Inr (), W')"
    and j: "j < length new"
  shows "\<exists>buff. W' = clone_world w F
      (new[j := Obj (kind (new ! j)) (AList.update k (JStr ''pending'') (props (new ! j)))])
      (es @ [DecodeAudioData buff (JRef (Suc (length (heap w) + j))) (JStr k)])"
proof -
  let ?t = "JRef (Suc (length (heap w) + j))"
  let ?new = "new[j := Obj (kind (new ! j)) (AList.update k (JStr ''pending'') (props (new ! j)))]"
  let ?W1 = "clone_world w F ?new es"
  have np: "k \<noteq> ''__proto__''"
  proof
    assume "k = ''__proto__''"
    then have "setp ?t k (JStr ''pending'') (clone_world w F new es) = (Inl Unmodelled, clone_world w F new es)"
      using j by (simp add: setp_new_proto)
    from bnd_fail [OF run [unfolded sound_body_def] this] show False .
  qed
  have st: "setp ?t k (JStr ''pending'') (clone_world w F new es) = (Inr (), ?W1)"
    using j np by simp
  have r1: "bnd (getp src k) (\<lambda>data.
     bnd (split1 data) (\<lambda>payload.
     bnd (base64ToArrayBuffer payload) (\<lambda>buff.
     decodeAudioData buff ?t (JStr k)))) ?W1 = (Inr (), W')"
    using bnd_step [OF run [unfolded sound_body_def] st] .
  from r1 obtain data Wa where p0: "getp src k ?W1 = (Inr data, Wa)"
    and r2: "bnd (split1 data) (\<lambda>payload.
     bnd (base64ToArrayBuffer payload) (\<lambda>buff.
     decodeAudioData buff ?t (JStr k))) Wa = (Inr (), W')"
    by (rule bnd_InrD)
  have Wa: "Wa = ?W1" using p0 by (rule getp_world)
  from r2 obtain payload Wb where p1: "split1 data Wa = (Inr payload, Wb)"
    and r3: "bnd (base64ToArrayBuffer payload) (\<lambda>buff.
     decodeAudioData buff ?t (JStr k)) Wb = (Inr (), W')"
    by (rule bnd_InrD)
  have Wb: "Wb = ?W1" using p1 Wa split1_world by blast
  from r3 obtain buff Wc where p2: "base64ToArrayBuffer payload Wb = (Inr buff, Wc)"
    and r4: "decodeAudioData buff ?t (JStr k) Wc = (Inr (), W')"
    by (rule bnd_InrD)
  have Wc: "Wc = ?W1" using p2 Wb base64_world by blast
  have "W' = clone_world w F ?new (es @ [DecodeAudioData buff ?t (JStr k)])"
    using r4 unfolding Wc by (rule decode_cw)
  then show ?thesis by blast
qed

lemma sounds_loop:
  assumes "for_in src ks (sound_body src (JRef (Suc (length (heap w) + j)))) (clone_world w F new es) = (Inr (), W')"
    and "j < length new" and "denotes w src" and "\<forall>k\<in>set ks. map_of (own w src) k \<noteq> None"
  shows "\<exists>P evs. W' = clone_world w F (new[j := Obj (kind (new ! j)) P]) (es @ evs)
    \<and> length evs = length ks
    \<and> (\<forall>m<length ks. \<exists>b. evs ! m = DecodeAudioData b (JRef (Suc (length (heap w) + j))) (JStr (ks ! m)))
    \<and> (\<forall>k. map_of P k = (if k \<in> set ks then Some (JStr ''pending'') else map_of (props (new ! j)) k))"
  using assms
proof (induction ks arbitrary: new es)
  case Nil
  then have "W' = clone_world w F new es" by simp
  moreover have "new[j := Obj (kind (new ! j)) (props (new ! j))] = new"
    by (simp add: list_update_id)
  ultimately show ?case
    by (intro exI [of _ "props (new ! j)"] exI [of _ "[]"]) simp
next
  case (Cons k ks)
  let ?t = "JRef (Suc (length (heap w) + j))"
  let ?W = "clone_world w F new es"
  from Cons.prems(1) obtain b W1 where
    h: "hasOwnProperty src k ?W = (Inr b, ?W)"
    and body: "if b then sound_body src ?t k ?W = (Inr (), W1) else W1 = ?W"
    and rest: "for_in src ks (sound_body src ?t) W1 = (Inr (), W')"
    by (rule for_in_ConsD)
  have "map_of (own ?W src) k \<noteq> None"
    using Cons.prems(3,4) by simp
  then have b: "b"
    using h by (auto simp: hasOwnProperty_def split: if_splits)
  let ?new = "new[j := Obj (kind (new ! j)) (AList.update k (JStr ''pending'') (props (new ! j)))]"
  have "sound_body src ?t k ?W = (Inr (), W1)"
    using body b by simp
  from sound_body_step [OF this Cons.prems(2)] obtain buff where
    W1: "W1 = clone_world w F ?new (es @ [DecodeAudioData buff ?t (JStr k)])"
    by blast
  have "\<exists>P evs. W' = clone_world w F (?new[j := Obj (kind (?new ! j)) P]) ((es @ [DecodeAudioData buff ?t (JStr k)]) @ evs)
    \<and> length evs = length ks
    \<and> (\<forall>m<length ks. \<exists>b. evs ! m = DecodeAudioData b ?t (JStr (ks ! m)))
    \<and> (\<forall>k'. map_of P k' = (if k' \<in> set ks then Some (JStr ''pending'') else map_of (props (?new ! j)) k'))"
  proof (rule Cons.IH)
    show "for_in src ks (sound_body src ?t) (clone_world w F ?new (es @ [DecodeAudioData buff ?t (JStr k)])) = (Inr (), W')"
      using rest W1 by simp
    show "j < length ?new" using Cons.prems(2) by simp
    show "denotes w src" by fact
    show "\<forall>k\<in>set ks. map_of (own w src) k \<noteq> None" using Cons.prems(4) by simp
  qed
  then obtain P evs where
    1: "W' = clone_world w F (?new[j := Obj (kind (?new ! j)) P]) ((es @ [DecodeAudioData buff ?t (JStr k)]) @ evs)"
    and 2: "length evs = length ks"
    and 3: "\<forall>m<length ks. \<exists>b. evs ! m = DecodeAudioData b ?t (JStr (ks ! m))"
    and 4: "\<forall>k'. map_of P k' = (if k' \<in> set ks then Some (JStr ''pending'') else map_of (props (?new ! j)) k')"
    by blast
  let ?evs = "DecodeAudioData buff ?t (JStr k) # evs"
  have a: "W' = clone_world w F (new[j := Obj (kind (new ! j)) P]) (es @ ?evs)"
    using 1 Cons.prems(2) by simp
  have b': "length ?evs = length (k # ks)" using 2 by simp
  have c: "\<forall>m<length (k # ks). \<exists>b. ?evs ! m = DecodeAudioData b ?t (JStr ((k # ks) ! m))"
  proof (intro allI impI)
    fix m assume "m < length (k # ks)"
    then show "\<exists>b. ?evs ! m = DecodeAudioData b ?t (JStr ((k # ks) ! m))"
      using 3 by (cases m) simp_all
  qed
  have d: "\<forall>k'. map_of P k' = (if k' \<in> set (k # ks) then Some (JStr ''pending'') else map_of (props (new ! j)) k')"
    using 4 Cons.prems(2) by (simp add: update_conv')
  from a b' c d show ?case by blast
qed

lemma shape_cong:
  assumes "shape w d T F new" "map_of F' = map_of F"
  shows "shape w d T F' new"
  using assms by (simp add: shape_def field_ok_def gain_ok_def)

lemma sound_body_eq:
  "(\<lambda>sound. bnd (setp t sound (JStr ''pending'')) (\<lambda>_.
            bnd (getp src sound) (\<lambda>data.
            bnd (split1 data) (\<lambda>payload.
            bnd (base64ToArrayBuffer payload) (\<lambda>buff.
            decodeAudioData buff t (JStr sound)))))) = sound_body src t"
  by (rule ext) (simp add: sound_body_def)

lemma keys_cw: "denotes w v \<Longrightarrow> keys (clone_world w F new es) v = keys w v"
  by (simp add: keys_def)

lemma key_in_own: "k \<in> set (keys w v) \<Longrightarrow> map_of (own w v) k \<noteq> None"
  by (simp add: keys_def map_of_eq_None_iff)

text \<open>What \<open>sounds\<close> leaves when it returns.\<close>

lemma sounds_spec:
  assumes run: "sounds s args w = (Inr s', w')" and s: "state_in w s"
    and a: "denotes w (arg args 0)"
  shows "\<exists>F new j evs. s' = JRef (length (heap w)) \<and> w' = clone_world w F new evs
    \<and> shape w s ((\<lambda>f. {})(''audioBuffers'' := set (keys w (arg args 0)))) F new
    \<and> map_of F ''audioBuffers'' = Some (JRef (Suc (length (heap w) + j))) \<and> j < length new
    \<and> length evs = length (keys w (arg args 0))
    \<and> (\<forall>m<length evs. \<exists>b. evs ! m =
          DecodeAudioData b (JRef (Suc (length (heap w) + j))) (JStr (keys w (arg args 0) ! m)))
    \<and> (\<forall>k\<in>set (keys w (arg args 0)). map_of (props (new ! j)) k = Some (JStr ''pending''))"
proof -
  let ?n = "length (heap w)"
  let ?src = "arg args 0"
  let ?ks = "keys w ?src"
  let ?T = "(\<lambda>f. {})(''audioBuffers'' := set ?ks)"
  let ?after = "\<lambda>newValue audioBuffers.
     bnd (for_own ?src (sound_body ?src audioBuffers)) (\<lambda>_.
     bnd (setp newValue ''audioBuffers'' audioBuffers) (\<lambda>_.
     ret newValue))"
  let ?rest = "\<lambda>newValue. bnd (getp newValue ''audioBuffers'') (\<lambda>b.
     bnd (if \<not> truthy b then new_object Plain else ret b) (\<lambda>audioBuffers.
     ?after newValue audioBuffers))"
  from run have "bnd (cloneData s) ?rest w = (Inr s', w')"
    by (simp add: sounds_def Let_def sound_body_eq)
  from after_clone [OF this s] obtain F new where sh: "shape w s (\<lambda>f. {}) F new"
    and rest: "?rest (JRef ?n) (clone_world w F new []) = (Inr s', w')"
    by blast
  let ?v = "case map_of F ''audioBuffers'' of Some x \<Rightarrow> x | None \<Rightarrow> JUndefined"
  have ab: "''audioBuffers'' \<in> sub_fields" by (simp add: sub_fields_def)
  have r1: "bnd (if \<not> truthy ?v then new_object Plain else ret ?v) (\<lambda>audioBuffers.
     ?after (JRef ?n) audioBuffers) (clone_world w F new []) = (Inr s', w')"
    using bnd_step [OF rest getp_clone_field [OF inherits_field(4)]] .
  define new2 where "new2 = (if map_of F ''audioBuffers'' = None then new @ [Obj Plain []] else new)"
  define j where "j = (case map_of F ''audioBuffers'' of Some (JRef b) \<Rightarrow> b - Suc ?n | _ \<Rightarrow> length new)"
  have j: "j < length new2" "kind (new2 ! j) = Plain"
    using shape_field [OF sh ab]
    by (cases rule: field_ok_cases; simp add: new2_def j_def)+
  have r2: "?after (JRef ?n) (JRef (Suc (?n + j))) (clone_world w F new2 []) = (Inr s', w')"
    using shape_field [OF sh ab]
  proof (cases rule: field_ok_cases)
    case absent
    have v: "?v = JUndefined" using absent(1) by simp
    have no: "(if \<not> truthy ?v then new_object Plain else ret ?v) (clone_world w F new [])
        = (Inr (JRef (Suc (?n + j))), clone_world w F new2 [])"
      using absent(1) by (simp add: new2_def j_def)
    show ?thesis using bnd_step [OF r1 no] .
  next
    case (table i)
    have no: "(if \<not> truthy ?v then new_object Plain else ret ?v) (clone_world w F new [])
        = (Inr (JRef (Suc (?n + j))), clone_world w F new2 [])"
      using table(2) by (simp add: new2_def j_def ret_def)
    show ?thesis using bnd_step [OF r1 no] .
  qed
  have shp: "shape w s ?T (AList.update ''audioBuffers'' (JRef (Suc (?n + j))) F) (new2[j := Obj Plain P])"
    if P: "\<forall>k. map_of P k = (if k \<in> set ?ks then Some (JStr ''pending'') else map_of (props (new2 ! j)) k)"
    for P
    using shape_field [OF sh ab]
  proof (cases rule: field_ok_cases)
    case absent
    have n2: "new2 = new @ [Obj Plain []]" "j = length new"
      using absent(1) by (simp_all add: new2_def j_def)
    have unused: "map_of F g \<noteq> Some (JRef (length (heap w) + 1 + j))" if "g \<in> sub_fields" for g
      using shape_unused_fresh [OF sh that, of j] n2 by simp
    have 1: "shape w s (\<lambda>f. {}) F new2" unfolding n2 using sh by (rule shape_append)
    have 2: "shape w s (\<lambda>f. {}) F (new2[j := Obj Plain P])"
      by (rule shape_other_update [OF 1 _ unused]) (simp_all add: j)
    have "shape w s ((\<lambda>f. {})(''audioBuffers'' := set ?ks))
        (AList.update ''audioBuffers'' (JRef (length (heap w) + 1 + j)) F) (new2[j := Obj Plain P])"
    proof (rule shape_new_table [OF 2 ab _ _ unused])
      show "j < length (new2[j := Obj Plain P])" using j by simp
      show "kind (new2[j := Obj Plain P] ! j) = Plain" using j by simp
      show "map_of (props (new2[j := Obj Plain P] ! j)) k = map_of (own w (get w s ''audioBuffers'')) k"
        if "k \<notin> set ?ks" for k
        using that P absent(2) [of k] j(1) n2 by simp
    qed
    then show ?thesis by simp
  next
    case (table i)
    have n2: "new2 = new" "j = i"
      using table(2) by (simp_all add: new2_def j_def)
    have "shape w s ((\<lambda>f. {})(''audioBuffers'' := {} \<union> set ?ks)) F (new[i := Obj Plain P])"
    proof (rule shape_table_update [OF sh ab])
      show "map_of F ''audioBuffers'' = Some (JRef (length (heap w) + 1 + i))" using table(2) by simp
      show "map_of P k = map_of (props (new ! i)) k" if "k \<notin> set ?ks" for k
        using that P n2 by simp
    qed
    then have 1: "shape w s ?T F (new2[j := Obj Plain P])"
      by (simp add: n2)
    have "map_of (AList.update ''audioBuffers'' (JRef (Suc (?n + j))) F) ''audioBuffers'' = map_of F ''audioBuffers''"
      using table(2) n2 by (simp add: update_conv')
    then have "map_of (AList.update ''audioBuffers'' (JRef (Suc (?n + j))) F) = map_of F"
      by (intro ext) (simp add: update_conv')
    with 1 show ?thesis
      by (rule shape_cong)
  qed
  let ?t = "JRef (Suc (?n + j))"
  let ?W2 = "clone_world w F new2 []"
  from r2 obtain u W3 where loop: "for_own ?src (sound_body ?src ?t) ?W2 = (Inr u, W3)"
    and r3: "bnd (setp (JRef ?n) ''audioBuffers'' ?t) (\<lambda>_. ret (JRef ?n)) W3 = (Inr s', w')"
    by (rule bnd_InrD)
  have loop': "for_in ?src ?ks (sound_body ?src ?t) ?W2 = (Inr (), W3)"
    using loop a by (simp add: for_own_def keys_cw)
  have "\<forall>k\<in>set ?ks. map_of (own w ?src) k \<noteq> None"
    by (simp add: key_in_own)
  from sounds_loop [OF loop' j(1) a this] obtain P evs where
    W3: "W3 = clone_world w F (new2[j := Obj (kind (new2 ! j)) P]) ([] @ evs)"
    and len: "length evs = length ?ks"
    and ev: "\<forall>m<length ?ks. \<exists>b. evs ! m = DecodeAudioData b ?t (JStr (?ks ! m))"
    and P: "\<forall>k. map_of P k = (if k \<in> set ?ks then Some (JStr ''pending'') else map_of (props (new2 ! j)) k)"
    by blast
  let ?new3 = "new2[j := Obj Plain P]"
  let ?F' = "AList.update ''audioBuffers'' ?t F"
  have W3': "W3 = clone_world w F ?new3 evs"
    using W3 j(2) by simp
  have res: "s' = JRef ?n" "w' = clone_world w ?F' ?new3 evs"
    using r3 unfolding W3' by (simp_all add: bnd_def ret_def)
  have "map_of ?F' ''audioBuffers'' = Some ?t \<and> j < length ?new3
    \<and> (\<forall>k\<in>set ?ks. map_of (props (?new3 ! j)) k = Some (JStr ''pending''))"
    using j(1) P by (simp add: update_conv')
  moreover note res shp [OF P] len
  moreover have "\<forall>m<length evs. \<exists>b. evs ! m = DecodeAudioData b ?t (JStr (?ks ! m))"
    using ev len by simp
  ultimately show ?thesis
    by (intro exI [of _ ?F'] exI [of _ ?new3] exI [of _ j] exI [of _ evs]) blast
qed

lemma to_key_trace:
  "to_key v (w\<lparr>trace := tr\<rparr>) = (fst (to_key v w), w\<lparr>trace := tr\<rparr>)"
  by (cases v) (simp_all add: to_key_def own_def kind_at_def)

lemma write_entry:
  assumes "t < length (heap wl)" and "k \<noteq> ''__proto__''"
  shows "\<exists>wl'. bnd (emit e) (\<lambda>_. bnd (to_key (JStr k)) (\<lambda>k. setp (JRef t) k v)) wl = (Inr (), wl')
    \<and> writes_only t wl wl' \<and> map_of (own wl' (JRef t)) k = Some v"
proof -
  let ?wl' = "wl\<lparr>trace := trace wl @ [e], heap := (heap wl)[t := Obj (kind (heap wl ! t))
      (AList.update k v (props (heap wl ! t)))]\<rparr>"
  have "bnd (emit e) (\<lambda>_. bnd (to_key (JStr k)) (\<lambda>k. setp (JRef t) k v)) wl = (Inr (), ?wl')"
    using assms by (simp add: bnd_def emit_def to_key_def setp_def nullish_def)
  moreover have "writes_only t wl ?wl'"
    using assms by (simp add: writes_only_def)
  moreover have "map_of (own ?wl' (JRef t)) k = Some v"
    using assms by (simp add: own_def update_conv')
  ultimately show ?thesis by blast
qed

lemma scheduled_onI:
  assumes "t < length (heap w')" "map_of (own w' (JRef t)) k = Some (JStr ''pending'')"
    and "k \<noteq> ''__proto__''"
  shows "scheduled_on w' t k"
  unfolding scheduled_on_def audioDecodedSuccess_def audioDecodedFailed_def
  using assms(2) write_entry [OF _ assms(3)] by blast

lemma key_set_cw: "denotes w v \<Longrightarrow> key_set (clone_world w F new es) v = key_set w v"
  by (simp add: key_set_def to_key_cw)

lemma key_set_str [simp]: "key_set w (JStr k) = {k}"
  by (auto simp: key_set_def to_key_def)

lemma addSound_schedules:
  assumes s: "state_in w s" and a: "arg args 0 = JStr k" and np: "k \<noteq> ''__proto__''"
    and run: "addSound s args w = (Inr s', w')"
  shows "\<exists>t buff. get w' s' ''audioBuffers'' = JRef t
      \<and> length (heap w) \<le> t \<and> t < length (heap w') \<and> kind (heap w' ! t) = Plain
      \<and> trace w' = trace w @ [DecodeAudioData buff (JRef t) (JStr k)]
      \<and> scheduled_on w' t k"
proof -
  let ?n = "length (heap w)"
  have d: "denotes w (arg args 0)" by (simp add: a denotes_def)
  from addSound_spec [OF run s d] obtain F new i buff k' where
    s': "s' = JRef ?n"
    and w': "w' = clone_world w F new [DecodeAudioData buff (JRef (Suc (?n + i))) (arg args 0)]"
    and sh: "shape w s ((\<lambda>f. {})(''audioBuffers'' := key_set w (arg args 0))) F new"
    and at: "map_of F ''audioBuffers'' = Some (JRef (Suc (?n + i)))" and i: "i < length new"
    and ks: "key_set w (arg args 0) = {k'}"
    and pend: "map_of (props (new ! i)) k' = Some (JStr ''pending'')"
    by blast
  have k': "k' = k" using ks by (simp add: a)
  let ?t = "Suc (?n + i)"
  have plain: "kind (new ! i) = Plain"
    using shape_ref_bound [OF sh _ , of "''audioBuffers''" i] at by (simp add: sub_fields_def)
  have 1: "get w' s' ''audioBuffers'' = JRef ?t"
    using at by (simp add: s' w' get_clone)
  have 2: "?n \<le> ?t \<and> ?t < length (heap w') \<and> kind (heap w' ! ?t) = Plain"
    using i plain by (simp add: w' nth_append)
  have 3: "trace w' = trace w @ [DecodeAudioData buff (JRef ?t) (JStr k)]"
    by (simp add: w' a)
  have "scheduled_on w' ?t k"
  proof (rule scheduled_onI)
    show "?t < length (heap w')" using 2 by simp
    show "map_of (own w' (JRef ?t)) k = Some (JStr ''pending'')"
      using i pend k' by (simp add: w')
    show "k \<noteq> ''__proto__''" by (rule np)
  qed
  with 1 2 3 show ?thesis by blast
qed

lemma sounds_schedules:
  assumes s: "state_in w s" and a: "denotes w (arg args 0)"
    and np: "''__proto__'' \<notin> set (keys w (arg args 0))"
    and run: "sounds s args w = (Inr s', w')"
  shows "\<exists>t evs. get w' s' ''audioBuffers'' = JRef t
      \<and> length (heap w) \<le> t \<and> t < length (heap w') \<and> kind (heap w' ! t) = Plain
      \<and> trace w' = trace w @ evs \<and> length evs = length (keys w (arg args 0))
      \<and> (\<forall>e\<in>set evs. \<exists>buff. \<exists>k\<in>set (keys w (arg args 0)). e = DecodeAudioData buff (JRef t) (JStr k))
      \<and> (\<forall>k\<in>set (keys w (arg args 0)).
            (\<exists>buff. DecodeAudioData buff (JRef t) (JStr k) \<in> set evs) \<and> scheduled_on w' t k)"
proof -
  let ?n = "length (heap w)"
  let ?ks = "keys w (arg args 0)"
  from sounds_spec [OF run s a] obtain F new j evs where
    s': "s' = JRef ?n" and w': "w' = clone_world w F new evs"
    and sh: "shape w s ((\<lambda>f. {})(''audioBuffers'' := set ?ks)) F new"
    and at: "map_of F ''audioBuffers'' = Some (JRef (Suc (?n + j)))" and j: "j < length new"
    and len: "length evs = length ?ks"
    and ev: "\<forall>m<length evs. \<exists>b. evs ! m = DecodeAudioData b (JRef (Suc (?n + j))) (JStr (?ks ! m))"
    and pend: "\<forall>k\<in>set ?ks. map_of (props (new ! j)) k = Some (JStr ''pending'')"
    by blast
  let ?t = "Suc (?n + j)"
  have plain: "kind (new ! j) = Plain"
    using shape_ref_bound [OF sh _ , of "''audioBuffers''" j] at by (simp add: sub_fields_def)
  have 1: "get w' s' ''audioBuffers'' = JRef ?t"
    using at by (simp add: s' w' get_clone)
  have 2: "?n \<le> ?t \<and> ?t < length (heap w') \<and> kind (heap w' ! ?t) = Plain"
    using j plain by (simp add: w' nth_append)
  have 3: "trace w' = trace w @ evs"
    by (simp add: w')
  have 4: "\<exists>buff. \<exists>k\<in>set ?ks. e = DecodeAudioData buff (JRef ?t) (JStr k)" if "e \<in> set evs" for e
  proof -
    from that obtain m where m: "m < length evs" "e = evs ! m"
      by (auto simp: in_set_conv_nth)
    with ev obtain b where e: "e = DecodeAudioData b (JRef ?t) (JStr (?ks ! m))"
      by blast
    have "?ks ! m \<in> set ?ks" using m(1) len by simp
    with e show ?thesis by blast
  qed
  have 5: "(\<exists>buff. DecodeAudioData buff (JRef ?t) (JStr k) \<in> set evs) \<and> scheduled_on w' ?t k"
    if "k \<in> set ?ks" for k
  proof
    from that obtain m where m: "m < length ?ks" "k = ?ks ! m"
      by (auto simp: in_set_conv_nth)
    with ev len obtain b where "evs ! m = DecodeAudioData b (JRef ?t) (JStr k)"
      by auto
    moreover have "evs ! m \<in> set evs" using m(1) len by simp
    ultimately show "\<exists>buff. DecodeAudioData buff (JRef ?t) (JStr k) \<in> set evs"
      by (intro exI [of _ b]) simp
    show "scheduled_on w' ?t k"
    proof (rule scheduled_onI)
      show "?t < length (heap w')" using 2 by simp
      show "map_of (own w' (JRef ?t)) k = Some (JStr ''pending'')"
        using j pend that by (simp add: w')
      show "k \<noteq> ''__proto__''" using np that by auto
    qed
  qed
  from 1 2 3 4 5 len show ?thesis by blast
qed

lemma benignI:
  assumes "\<And>w r w'. f w = (r, w') \<Longrightarrow>
     \<exists>extra es. w' = w\<lparr>heap := heap w @ extra, trace := trace w @ es\<rparr> \<and> (\<forall>e\<in>set es. \<not> gain_event e)"
    and "\<And>w x w'. f w = (Inr x, w') \<Longrightarrow> Q x"
  shows "benign f Q"
  unfolding benign_def using assms by blast

lemma benign_same:
  assumes "\<And>w r w'. f w = (r, w') \<Longrightarrow> w' = w"
    and "\<And>w x w'. f w = (Inr x, w') \<Longrightarrow> Q x"
  shows "benign f Q"
proof (rule benignI)
  fix w r w' assume "f w = (r, w')"
  then have "w' = w\<lparr>heap := heap w @ [], trace := trace w @ []\<rparr> \<and> (\<forall>e\<in>set []. \<not> gain_event e)"
    using assms(1) by simp
  then show "\<exists>extra es. w' = w\<lparr>heap := heap w @ extra, trace := trace w @ es\<rparr> \<and> (\<forall>e\<in>set es. \<not> gain_event e)"
    by blast
qed (rule assms(2))

lemma benign_weaken: "benign f P \<Longrightarrow> (\<And>x. P x \<Longrightarrow> Q x) \<Longrightarrow> benign f Q"
  unfolding benign_def by blast

lemma benign_ret: "Q x \<Longrightarrow> benign (ret x) Q"
  by (rule benign_same) (simp_all add: ret_def)

lemma benign_throw: "benign (throw e) Q"
  by (rule benign_same) (simp_all add: throw_def)

lemma benign_getp: "benign (getp v k) (\<lambda>x. True)"
  by (rule benign_same) (auto dest: getp_world)

lemma benign_to_key: "benign (to_key v) (\<lambda>x. True)"
  by (rule benign_same) (auto dest: to_key_world)

lemma call_method_world: "call_method v name w = (r, w') \<Longrightarrow> w' = w"
  by (auto simp: call_method_def split: val.splits if_splits)

lemma benign_call_method: "benign (call_method v name) (\<lambda>x. True)"
  by (rule benign_same) (auto dest: call_method_world)

lemma benign_emit: "\<not> gain_event e \<Longrightarrow> benign (emit e) (\<lambda>x. True)"
proof (rule benignI)
  fix w r w' assume e: "\<not> gain_event e" and "emit e w = (r, w')"
  then have "w' = w\<lparr>heap := heap w @ [], trace := trace w @ [e]\<rparr> \<and> (\<forall>x\<in>set [e]. \<not> gain_event x)"
    by (simp add: emit_def)
  then show "\<exists>extra es. w' = w\<lparr>heap := heap w @ extra, trace := trace w @ es\<rparr> \<and> (\<forall>e\<in>set es. \<not> gain_event e)"
    by blast
qed simp

lemma benign_new_object: "benign (new_object k) (\<lambda>x. True)"
proof (rule benignI)
  fix w r w' assume "new_object k w = (r, w')"
  then have "w' = w\<lparr>heap := heap w @ [Obj k []], trace := trace w @ []\<rparr> \<and> (\<forall>x\<in>set []. \<not> gain_event x)"
    by (auto simp: new_object_def)
  then show "\<exists>extra es. w' = w\<lparr>heap := heap w @ extra, trace := trace w @ es\<rparr> \<and> (\<forall>e\<in>set es. \<not> gain_event e)"
    by blast
qed simp

lemma benign_bnd:
  assumes f: "benign f P" and g: "\<And>x. P x \<Longrightarrow> benign (g x) Q"
  shows "benign (bnd f g) Q"
proof (rule benignI)
  fix w r w' assume run: "bnd f g w = (r, w')"
  show "\<exists>extra es. w' = w\<lparr>heap := heap w @ extra, trace := trace w @ es\<rparr> \<and> (\<forall>e\<in>set es. \<not> gain_event e)"
    using run
  proof (cases rule: bndE)
    case (throws e)
    then show ?thesis using f unfolding benign_def by blast
  next
    case (returns x w1)
    from f returns(1) obtain ex1 es1 where
      1: "w1 = w\<lparr>heap := heap w @ ex1, trace := trace w @ es1\<rparr>" "\<forall>e\<in>set es1. \<not> gain_event e" "P x"
      unfolding benign_def by blast
    from g [OF 1(3)] returns(2) obtain ex2 es2 where
      2: "w' = w1\<lparr>heap := heap w1 @ ex2, trace := trace w1 @ es2\<rparr>" "\<forall>e\<in>set es2. \<not> gain_event e"
      unfolding benign_def by blast
    have "w' = w\<lparr>heap := heap w @ (ex1 @ ex2), trace := trace w @ (es1 @ es2)\<rparr>
        \<and> (\<forall>e\<in>set (es1 @ es2). \<not> gain_event e)"
      using 1 2 by auto
    then show ?thesis by blast
  qed
next
  fix w x w' assume run: "bnd f g w = (Inr x, w')"
  then obtain y w1 where "f w = (Inr y, w1)" "g y w1 = (Inr x, w')"
    by (rule bnd_InrD)
  then show "Q x"
    using f g unfolding benign_def by blast
qed

lemma benign_if: "(c \<Longrightarrow> benign f Q) \<Longrightarrow> (\<not> c \<Longrightarrow> benign g Q) \<Longrightarrow> benign (if c then f else g) Q"
  by simp

lemma benign_world: "(\<And>w. benign (\<lambda>w'. f w w') Q) \<Longrightarrow> benign (\<lambda>w. f w w) Q"
  unfolding benign_def by blast

lemma silentD: "silent f \<Longrightarrow> f w = (r, w') \<Longrightarrow> trace w' = trace w"
  unfolding silent_def by blast

lemma silent_same:
  assumes "\<And>w r w'. f w = (r, w') \<Longrightarrow> w' = w"
  shows "silent f"
  unfolding silent_def using assms by blast

lemma silent_bnd:
  assumes f: "silent f" and g: "\<And>x. silent (g x)"
  shows "silent (bnd f g)"
  unfolding silent_def
proof (intro allI impI)
  fix w r w' assume "bnd f g w = (r, w')"
  then show "trace w' = trace w"
  proof (cases rule: bndE)
    case (throws e)
    then show ?thesis using silentD [OF f] by blast
  next
    case (returns x w1)
    then show ?thesis using silentD [OF f returns(1)] silentD [OF g returns(2)] by simp
  qed
qed

lemma silent_ret: "silent (ret x)"
  by (simp add: silent_def ret_def)

lemma silent_if: "silent a \<Longrightarrow> silent b \<Longrightarrow> silent (if c then a else b)"
  by simp

lemma silent_getp: "silent (getp v k)"
  by (rule silent_same) (rule getp_world)

lemma silent_to_key: "silent (to_key v)"
  by (rule silent_same) (rule to_key_world)

lemma silent_split1: "silent (split1 v)"
  by (rule silent_same) (rule split1_world)

lemma silent_base64: "silent (base64ToArrayBuffer v)"
  by (rule silent_same) (rule base64_world)

lemma silent_setp: "silent (setp t k v)"
  by (auto simp: silent_def setp_def split: val.splits if_splits)

lemma silent_new_object: "silent (new_object k)"
  by (auto simp: silent_def new_object_def)

lemma silent_for_in:
  assumes "\<And>k. silent (body k)"
  shows "silent (for_in src ks body)"
  unfolding silent_def
proof (induction ks)
  case Nil
  then show ?case by simp
next
  case (Cons k ks)
  show ?case
  proof (intro allI impI)
    fix w r w' assume run: "for_in src (k # ks) body w = (r, w')"
    obtain rh wh where h: "hasOwnProperty src k w = (rh, wh)" by fastforce
    then have wh: "wh = w" by (rule hasOwnProperty_world)
    show "trace w' = trace w"
    proof (cases rh)
      case (Inl e)
      then show ?thesis using run h wh by simp
    next
      case (Inr b)
      show ?thesis
      proof (cases b)
        case False
        then have "for_in src ks body w = (r, w')" using run h wh Inr by simp
        then show ?thesis using Cons.IH by blast
      next
        case True
        obtain rb wb where b: "body k w = (rb, wb)" by fastforce
        have tb: "trace wb = trace w" using silentD [OF assms b] .
        show ?thesis
        proof (cases rb)
          case (Inl e)
          then show ?thesis using run h wh Inr True b tb by simp
        next
          case Inr2: (Inr u)
          then have "for_in src ks body wb = (r, w')" using run h wh Inr True b by simp
          then show ?thesis using Cons.IH tb by metis
        qed
      qed
    qed
  qed
qed

lemma silent_for_own:
  assumes "\<And>k. silent (body k)"
  shows "silent (for_own src body)"
proof -
  have "silent (for_in src ks body)" for ks
    using assms by (rule silent_for_in)
  then show ?thesis
    unfolding silent_def for_own_def by blast
qed

lemma silent_shallowCopy: "silent (shallowCopy v)"
  unfolding shallowCopy_def
  by (intro silent_bnd silent_new_object silent_for_own silent_getp silent_setp silent_ret)

lemma silent_cloneData: "silent (cloneData v)"
  unfolding cloneData_def
  by (intro silent_bnd silent_new_object silent_if silent_shallowCopy silent_getp silent_setp silent_ret)

lemma fails_silently_bnd:
  assumes f: "silent f" and g: "\<And>x. fails_silently (g x)"
  shows "fails_silently (bnd f g)"
  unfolding fails_silently_def
proof (intro allI impI)
  fix w e w' assume "bnd f g w = (Inl e, w')"
  then show "trace w' = trace w"
  proof (cases rule: bndE)
    case (throws e')
    then show ?thesis using silentD [OF f] by blast
  next
    case (returns x w1)
    then show ?thesis using silentD [OF f returns(1)] g [of x] by (simp add: fails_silently_def)
  qed
qed

lemma fails_silently_decode: "fails_silently (bnd (decodeAudioData buff t i) (\<lambda>_. ret v))"
  by (auto simp: fails_silently_def bnd_def decodeAudioData_def ret_def emit_def split: if_splits)

text \<open>When \<open>addSound\<close> throws it has scheduled no decode.\<close>

lemma addSound_fails_silently: "fails_silently (addSound s args)"
  unfolding addSound_def Let_def
  by (intro fails_silently_bnd fails_silently_decode silent_cloneData silent_getp silent_to_key
      silent_setp silent_split1 silent_base64)

lemma decode_any:
  assumes "decodeAudioData buff t i (clone_world w F new es) = (r, W')"
  shows "(r = Inr () \<and> W' = clone_world w F new (es @ [DecodeAudioData buff t i]))
     \<or> (r = Inl TypeError \<and> W' = clone_world w F new es)"
  using assms by (auto simp: decodeAudioData_def split: if_splits)

text \<open>One round of the loop of \<open>sounds\<close>, whatever its end.\<close>

lemma sound_body_any:
  assumes run: "sound_body src (JRef (Suc (length (heap w) + j))) k (clone_world w F new es) = (r, W')"
    and j: "j < length new" and r: "r \<noteq> Inl Unmodelled"
  shows "k \<noteq> ''__proto__'' \<and> (\<exists>evs. W' = clone_world w F
      (new[j := Obj (kind (new ! j)) (AList.update k (JStr ''pending'') (props (new ! j)))]) (es @ evs)
      \<and> (evs = [] \<or> (\<exists>buff. evs = [DecodeAudioData buff (JRef (Suc (length (heap w) + j))) (JStr k)])))"
proof -
  let ?t = "JRef (Suc (length (heap w) + j))"
  let ?new = "new[j := Obj (kind (new ! j)) (AList.update k (JStr ''pending'') (props (new ! j)))]"
  let ?W1 = "clone_world w F ?new es"
  have np: "k \<noteq> ''__proto__''"
  proof
    assume "k = ''__proto__''"
    then have "setp ?t k (JStr ''pending'') (clone_world w F new es) = (Inl Unmodelled, clone_world w F new es)"
      using j by (simp add: setp_new_proto)
    then have "r = Inl Unmodelled"
      using run by (simp add: sound_body_def bnd_def)
    with r show False by simp
  qed
  have st: "setp ?t k (JStr ''pending'') (clone_world w F new es) = (Inr (), ?W1)"
    using j np by simp
  have same: "\<exists>evs. ?W1 = clone_world w F ?new (es @ evs)
      \<and> (evs = [] \<or> (\<exists>buff. evs = [DecodeAudioData buff ?t (JStr k)]))"
    by (intro exI [of _ "[]"]) simp
  have r1: "bnd (getp src k) (\<lambda>data.
     bnd (split1 data) (\<lambda>payload.
     bnd (base64ToArrayBuffer payload) (\<lambda>buff.
     decodeAudioData buff ?t (JStr k)))) ?W1 = (r, W')"
    using bnd_step [OF run [unfolded sound_body_def] st] .
  have "\<exists>evs. W' = clone_world w F ?new (es @ evs)
      \<and> (evs = [] \<or> (\<exists>buff. evs = [DecodeAudioData buff ?t (JStr k)]))"
    using r1
  proof (cases rule: bndE)
    case (throws e)
    then have "W' = ?W1" by (auto dest: getp_world)
    with same show ?thesis by simp
  next
    case a: (returns data Wa)
    have Wa: "Wa = ?W1" using a(1) by (rule getp_world)
    from a(2) show ?thesis
    proof (cases rule: bndE)
      case (throws e)
      then have "W' = ?W1" using Wa by (auto dest: split1_world)
      with same show ?thesis by simp
    next
      case b: (returns payload Wb)
      have Wb: "Wb = ?W1" using b(1) Wa split1_world by blast
      from b(2) show ?thesis
      proof (cases rule: bndE)
        case (throws e)
        then have "W' = ?W1" using Wb by (auto dest: base64_world)
        with same show ?thesis by simp
      next
        case c: (returns buff Wc)
        have Wc: "Wc = ?W1" using c(1) Wb base64_world by blast
        from decode_any [OF c(2) [unfolded Wc]] show ?thesis
        proof
          assume "r = Inr () \<and> W' = clone_world w F ?new (es @ [DecodeAudioData buff ?t (JStr k)])"
          then show ?thesis by (intro exI [of _ "[DecodeAudioData buff ?t (JStr k)]"]) simp
        next
          assume "r = Inl TypeError \<and> W' = clone_world w F ?new es"
          then show ?thesis by (intro exI [of _ "[]"]) simp
        qed
      qed
    qed
  qed
  with np show ?thesis by simp
qed

text \<open>
  The loop of \<open>sounds\<close>, whatever its end: the decodes it has scheduled are for keys of the
  argument, whose entries in the table are \<open>'pending'\<close>.
\<close>

lemma sounds_loop_any:
  assumes "for_in src ks (sound_body src (JRef (Suc (length (heap w) + j)))) (clone_world w F new es) = (r, W')"
    and "j < length new" and "r \<noteq> Inl Unmodelled"
  shows "\<exists>P evs. W' = clone_world w F (new[j := Obj (kind (new ! j)) P]) (es @ evs)
    \<and> (\<forall>e\<in>set evs. \<exists>buff. \<exists>k\<in>set ks. e = DecodeAudioData buff (JRef (Suc (length (heap w) + j))) (JStr k)
          \<and> k \<noteq> ''__proto__'' \<and> map_of P k = Some (JStr ''pending''))
    \<and> (\<forall>k. map_of (props (new ! j)) k = Some (JStr ''pending'') \<longrightarrow> map_of P k = Some (JStr ''pending''))"
  using assms
proof (induction ks arbitrary: new es)
  case Nil
  then have "W' = clone_world w F (new[j := Obj (kind (new ! j)) (props (new ! j))]) (es @ [])"
    by simp
  then show ?case
    by (intro exI [of _ "props (new ! j)"] exI [of _ "[]"]) simp
next
  case (Cons k ks)
  let ?t = "JRef (Suc (length (heap w) + j))"
  let ?W = "clone_world w F new es"
  let ?P1 = "AList.update k (JStr ''pending'') (props (new ! j))"
  let ?new1 = "new[j := Obj (kind (new ! j)) ?P1]"
  have stop: ?case if "W' = ?W"
  proof -
    from that have "W' = clone_world w F (new[j := Obj (kind (new ! j)) (props (new ! j))]) (es @ [])"
      by simp
    then show ?thesis
      by (intro exI [of _ "props (new ! j)"] exI [of _ "[]"]) simp
  qed
  have widen: ?case
    if "\<exists>P evs. W' = clone_world w F (new[j := Obj (kind (new ! j)) P]) (es @ evs)
    \<and> (\<forall>e\<in>set evs. \<exists>buff. \<exists>k\<in>set ks. e = DecodeAudioData buff ?t (JStr k)
          \<and> k \<noteq> ''__proto__'' \<and> map_of P k = Some (JStr ''pending''))
    \<and> (\<forall>k. map_of (props (new ! j)) k = Some (JStr ''pending'') \<longrightarrow> map_of P k = Some (JStr ''pending''))"
  proof -
    from that obtain P evs where 1: "W' = clone_world w F (new[j := Obj (kind (new ! j)) P]) (es @ evs)"
      and 2: "\<forall>e\<in>set evs. \<exists>buff. \<exists>k\<in>set ks. e = DecodeAudioData buff ?t (JStr k)
          \<and> k \<noteq> ''__proto__'' \<and> map_of P k = Some (JStr ''pending'')"
      and 3: "\<forall>k. map_of (props (new ! j)) k = Some (JStr ''pending'') \<longrightarrow> map_of P k = Some (JStr ''pending'')"
      by blast
    from 2 have "\<forall>e\<in>set evs. \<exists>buff. \<exists>k'\<in>set (k # ks). e = DecodeAudioData buff ?t (JStr k')
          \<and> k' \<noteq> ''__proto__'' \<and> map_of P k' = Some (JStr ''pending'')"
      by fastforce
    with 1 3 show ?thesis
      by (intro exI [of _ P] exI [of _ evs]) simp
  qed
  obtain rh wh where h: "hasOwnProperty src k ?W = (rh, wh)" by fastforce
  then have wh: "wh = ?W" by (rule hasOwnProperty_world)
  show ?case
  proof (cases rh)
    case (Inl e)
    then have "W' = ?W" using Cons.prems(1) h wh by simp
    then show ?thesis by (rule stop)
  next
    case (Inr b)
    show ?thesis
    proof (cases b)
      case False
      then have "for_in src ks (sound_body src ?t) ?W = (r, W')"
        using Cons.prems(1) h wh Inr by simp
      from Cons.IH [OF this Cons.prems(2,3)] show ?thesis by (rule widen)
    next
      case True
      obtain rb Wb where b: "sound_body src ?t k ?W = (rb, Wb)" by fastforce
      have rest: "(case rb of Inl e \<Rightarrow> (Inl e, Wb) | Inr u \<Rightarrow> for_in src ks (sound_body src ?t) Wb) = (r, W')"
        using Cons.prems(1) h wh Inr True b by simp
      have rb: "rb \<noteq> Inl Unmodelled"
        using rest Cons.prems(3) by (cases rb) auto
      from sound_body_any [OF b Cons.prems(2) rb] obtain evs1 where np: "k \<noteq> ''__proto__''"
        and Wb: "Wb = clone_world w F ?new1 (es @ evs1)"
        and evs1: "evs1 = [] \<or> (\<exists>buff. evs1 = [DecodeAudioData buff ?t (JStr k)])"
        by blast
      have j1: "j < length ?new1" using Cons.prems(2) by simp
      have pk: "map_of ?P1 k = Some (JStr ''pending'')" by (simp add: update_conv')
      have p1: "props (?new1 ! j) = ?P1" "kind (?new1 ! j) = kind (new ! j)"
        using Cons.prems(2) by simp_all
      have keep: "map_of ?P1 k' = Some (JStr ''pending'')"
        if "map_of (props (new ! j)) k' = Some (JStr ''pending'')" for k'
        using that by (simp add: update_conv')
      show ?thesis
      proof (cases rb)
        case (Inl e)
        then have W': "W' = clone_world w F (new[j := Obj (kind (new ! j)) ?P1]) (es @ evs1)"
          using rest Wb by simp
        have "\<forall>e\<in>set evs1. \<exists>buff. \<exists>k'\<in>set (k # ks). e = DecodeAudioData buff ?t (JStr k')
          \<and> k' \<noteq> ''__proto__'' \<and> map_of ?P1 k' = Some (JStr ''pending'')"
          using evs1 np pk by auto
        with W' keep show ?thesis
          by (intro exI [of _ ?P1] exI [of _ evs1]) simp
      next
        case Inr2: (Inr u)
        then have "for_in src ks (sound_body src ?t) (clone_world w F ?new1 (es @ evs1)) = (r, W')"
          using rest Wb by simp
        from Cons.IH [OF this j1 Cons.prems(3)] obtain P evs where
          1: "W' = clone_world w F (?new1[j := Obj (kind (?new1 ! j)) P]) ((es @ evs1) @ evs)"
          and 2: "\<forall>e\<in>set evs. \<exists>buff. \<exists>k\<in>set ks. e = DecodeAudioData buff ?t (JStr k)
              \<and> k \<noteq> ''__proto__'' \<and> map_of P k = Some (JStr ''pending'')"
          and 3: "\<forall>k. map_of (props (?new1 ! j)) k = Some (JStr ''pending'') \<longrightarrow> map_of P k = Some (JStr ''pending'')"
          by blast
        have W': "W' = clone_world w F (new[j := Obj (kind (new ! j)) P]) (es @ (evs1 @ evs))"
          using 1 unfolding p1 by simp
        have k: "map_of P k = Some (JStr ''pending'')"
          using 3 pk unfolding p1 by blast
        have a: "\<forall>e\<in>set (evs1 @ evs). \<exists>buff. \<exists>k'\<in>set (k # ks). e = DecodeAudioData buff ?t (JStr k')
          \<and> k' \<noteq> ''__proto__'' \<and> map_of P k' = Some (JStr ''pending'')"
        proof
          fix e assume "e \<in> set (evs1 @ evs)"
          then consider "e \<in> set evs1" | "e \<in> set evs" by auto
          then show "\<exists>buff. \<exists>k'\<in>set (k # ks). e = DecodeAudioData buff ?t (JStr k')
              \<and> k' \<noteq> ''__proto__'' \<and> map_of P k' = Some (JStr ''pending'')"
          proof cases
            case 1
            with evs1 obtain buff where "e = DecodeAudioData buff ?t (JStr k)" by auto
            with np k show ?thesis by (intro exI [of _ buff] bexI [of _ k]) simp_all
          next
            case 2
            with \<open>\<forall>e\<in>set evs. _\<close> obtain buff k' where "k' \<in> set ks"
              "e = DecodeAudioData buff ?t (JStr k')" "k' \<noteq> ''__proto__''"
              "map_of P k' = Some (JStr ''pending'')" by blast
            then show ?thesis by (intro exI [of _ buff] bexI [of _ k']) simp_all
          qed
        qed
        have b: "\<forall>k'. map_of (props (new ! j)) k' = Some (JStr ''pending'') \<longrightarrow> map_of P k' = Some (JStr ''pending'')"
          using 3 keep unfolding p1 by blast
        from W' a b show ?thesis
          by (intro exI [of _ P] exI [of _ "evs1 @ evs"]) simp
      qed
    qed
  qed
qed

text \<open>
  When \<open>sounds\<close> throws, the decodes it has scheduled are bound to one new plain object,
  in which the entries of their keys are \<open>'pending'\<close>.
\<close>

lemma sounds_fails:
  assumes run: "sounds s args w = (Inl TypeError, w')" and s: "state_in w s"
    and a: "denotes w (arg args 0)"
  shows "\<exists>evs. trace w' = trace w @ evs \<and> (evs = [] \<or> (\<exists>t. length (heap w) \<le> t \<and> t < length (heap w')
      \<and> kind (heap w' ! t) = Plain
      \<and> (\<forall>e\<in>set evs. \<exists>buff. \<exists>k\<in>set (keys w (arg args 0)).
            e = DecodeAudioData buff (JRef t) (JStr k) \<and> scheduled_on w' t k)))"
proof -
  let ?n = "length (heap w)"
  let ?src = "arg args 0"
  let ?ks = "keys w ?src"
  let ?after = "\<lambda>newValue audioBuffers.
     bnd (for_own ?src (sound_body ?src audioBuffers)) (\<lambda>_.
     bnd (setp newValue ''audioBuffers'' audioBuffers) (\<lambda>_.
     ret newValue))"
  let ?rest = "\<lambda>newValue. bnd (getp newValue ''audioBuffers'') (\<lambda>b.
     bnd (if \<not> truthy b then new_object Plain else ret b) (\<lambda>audioBuffers.
     ?after newValue audioBuffers))"
  have quiet: ?thesis if "trace w' = trace w"
    using that by (intro exI [of _ "[]"]) simp
  from run have "bnd (cloneData s) ?rest w = (Inl TypeError, w')"
    by (simp add: sounds_def Let_def sound_body_eq)
  then show ?thesis
  proof (cases rule: bndE)
    case (throws e)
    then have "trace w' = trace w" using silentD [OF silent_cloneData] by blast
    then show ?thesis by (rule quiet)
  next
    case (returns c w1)
    from cloneData_spec [OF returns(1)] s have "c = JRef ?n" "partial_clone w s all_fields w1"
      by (simp_all add: state_in_def)
    from partial_clone_world [OF this(2)] obtain F new where
      w1: "w1 = clone_world w F new []" and sh: "shape w s (\<lambda>f. {}) F new" by blast
    have rest: "?rest (JRef ?n) (clone_world w F new []) = (Inl TypeError, w')"
      using returns(2) \<open>c = JRef ?n\<close> w1 by simp
    let ?v = "case map_of F ''audioBuffers'' of Some x \<Rightarrow> x | None \<Rightarrow> JUndefined"
    have ab: "''audioBuffers'' \<in> sub_fields" by (simp add: sub_fields_def)
    have r1: "bnd (if \<not> truthy ?v then new_object Plain else ret ?v) (\<lambda>audioBuffers.
       ?after (JRef ?n) audioBuffers) (clone_world w F new []) = (Inl TypeError, w')"
      using bnd_step [OF rest getp_clone_field [OF inherits_field(4)]] .
    define new2 where "new2 = (if map_of F ''audioBuffers'' = None then new @ [Obj Plain []] else new)"
    define j where "j = (case map_of F ''audioBuffers'' of Some (JRef b) \<Rightarrow> b - Suc ?n | _ \<Rightarrow> length new)"
    have j: "j < length new2" "kind (new2 ! j) = Plain"
      using shape_field [OF sh ab]
      by (cases rule: field_ok_cases; simp add: new2_def j_def)+
    have r2: "?after (JRef ?n) (JRef (Suc (?n + j))) (clone_world w F new2 []) = (Inl TypeError, w')"
      using shape_field [OF sh ab]
    proof (cases rule: field_ok_cases)
      case absent
      have no: "(if \<not> truthy ?v then new_object Plain else ret ?v) (clone_world w F new [])
          = (Inr (JRef (Suc (?n + j))), clone_world w F new2 [])"
        using absent(1) by (simp add: new2_def j_def)
      show ?thesis using bnd_step [OF r1 no] .
    next
      case (table i)
      have no: "(if \<not> truthy ?v then new_object Plain else ret ?v) (clone_world w F new [])
          = (Inr (JRef (Suc (?n + j))), clone_world w F new2 [])"
        using table(2) by (simp add: new2_def j_def ret_def)
      show ?thesis using bnd_step [OF r1 no] .
    qed
    let ?t = "Suc (?n + j)"
    let ?W2 = "clone_world w F new2 []"
    from r2 show ?thesis
    proof (cases rule: bndE)
      case (throws e)
      then have "for_in ?src ?ks (sound_body ?src (JRef ?t)) ?W2 = (Inl TypeError, w')"
        using a by (simp add: for_own_def keys_cw)
      from sounds_loop_any [OF this j(1)] obtain P evs where
        w': "w' = clone_world w F (new2[j := Obj (kind (new2 ! j)) P]) ([] @ evs)"
        and ev: "\<forall>e\<in>set evs. \<exists>buff. \<exists>k\<in>set ?ks. e = DecodeAudioData buff (JRef ?t) (JStr k)
          \<and> k \<noteq> ''__proto__'' \<and> map_of P k = Some (JStr ''pending'')"
        by auto
      have 1: "trace w' = trace w @ evs" by (simp add: w')
      have 2: "?n \<le> ?t \<and> ?t < length (heap w') \<and> kind (heap w' ! ?t) = Plain"
        using j by (simp add: w' nth_append)
      have 3: "\<exists>buff. \<exists>k\<in>set ?ks. e = DecodeAudioData buff (JRef ?t) (JStr k) \<and> scheduled_on w' ?t k"
        if "e \<in> set evs" for e
      proof -
        from ev that obtain buff k where k: "k \<in> set ?ks" "e = DecodeAudioData buff (JRef ?t) (JStr k)"
          "k \<noteq> ''__proto__''" "map_of P k = Some (JStr ''pending'')" by blast
        have "scheduled_on w' ?t k"
        proof (rule scheduled_onI)
          show "?t < length (heap w')" using 2 by simp
          show "map_of (own w' (JRef ?t)) k = Some (JStr ''pending'')"
            using j(1) k(4) by (simp add: w')
          show "k \<noteq> ''__proto__''" by fact
        qed
        with k show ?thesis by blast
      qed
      from 1 2 3 show ?thesis
        by (intro exI [of _ evs] conjI disjI2 exI [of _ ?t]) blast+
    next
      case (returns u W3)
      then have "for_in ?src ?ks (sound_body ?src (JRef ?t)) ?W2 = (Inr u, W3)"
        using a by (simp add: for_own_def keys_cw)
      from sounds_loop_any [OF this j(1)] obtain P evs where
        "W3 = clone_world w F (new2[j := Obj (kind (new2 ! j)) P]) ([] @ evs)"
        by auto
      with returns(2) have False
        by (simp add: bnd_def ret_def)
      then show ?thesis ..
    qed
  qed
qed

section \<open>The decodes that are scheduled\<close>

text \<open>
  Claim C5. In a world where the state and its sub-mappings denote objects, for an
  identifier that is a string other than \<open>__proto__\<close> (an assignment under that key does not
  make an entry), when \<open>addSound\<close> or \<open>sounds\<close> returns: the returned state's
  \<open>audioBuffers\<close> is a plain object \<open>t\<close> made during the call; \<open>addSound\<close> has made exactly
  one \<open>decodeAudioData\<close> call and \<open>sounds\<close> one for each key of its argument, and nothing
  else on the engine; the callbacks of each call are bound to \<open>t\<close>, whose own entry for the
  identifier is \<open>'pending'\<close> on return; run in any later world, the success callback
  returns and leaves the decoded handle as the own entry of the identifier in \<open>t\<close>, the
  failure callback \<open>'failed'\<close>, and neither writes any other object. When \<open>addSound\<close>
  throws it has made no call on the engine; when \<open>sounds\<close> throws, the decodes it has
  scheduled before are bound in the same way to one new plain object.
\<close>

theorem decode_callbacks_table:
  assumes "state_in w s"
  shows "(\<forall>k. arg args 0 = JStr k \<longrightarrow> k \<noteq> ''__proto__'' \<longrightarrow>
           (addSound s args w = (Inr s', w') \<longrightarrow>
             (\<exists>t buff. get w' s' ''audioBuffers'' = JRef t
                \<and> length (heap w) \<le> t \<and> t < length (heap w') \<and> kind (heap w' ! t) = Plain
                \<and> trace w' = trace w @ [DecodeAudioData buff (JRef t) (JStr k)]
                \<and> scheduled_on w' t k))
           \<and> (addSound s args w = (Inl TypeError, w') \<longrightarrow> trace w' = trace w))
    \<and> (denotes w (arg args 0) \<longrightarrow> ''__proto__'' \<notin> set (keys w (arg args 0)) \<longrightarrow>
           (sounds s args w = (Inr s', w') \<longrightarrow>
             (\<exists>t evs. get w' s' ''audioBuffers'' = JRef t
                \<and> length (heap w) \<le> t \<and> t < length (heap w') \<and> kind (heap w' ! t) = Plain
                \<and> trace w' = trace w @ evs \<and> length evs = length (keys w (arg args 0))
                \<and> (\<forall>e\<in>set evs. \<exists>buff. \<exists>k\<in>set (keys w (arg args 0)).
                      e = DecodeAudioData buff (JRef t) (JStr k))
                \<and> (\<forall>k\<in>set (keys w (arg args 0)).
                      (\<exists>buff. DecodeAudioData buff (JRef t) (JStr k) \<in> set evs)
                      \<and> scheduled_on w' t k)))
           \<and> (sounds s args w = (Inl TypeError, w') \<longrightarrow>
             (\<exists>evs. trace w' = trace w @ evs
                \<and> (evs = [] \<or> (\<exists>t. length (heap w) \<le> t \<and> t < length (heap w')
                      \<and> kind (heap w' ! t) = Plain
                      \<and> (\<forall>e\<in>set evs. \<exists>buff. \<exists>k\<in>set (keys w (arg args 0)).
                            e = DecodeAudioData buff (JRef t) (JStr k) \<and> scheduled_on w' t k))))))"
proof (intro conjI allI impI)
  fix k assume "arg args 0 = JStr k" "k \<noteq> ''__proto__''" "addSound s args w = (Inr s', w')"
  with assms show "\<exists>t buff. get w' s' ''audioBuffers'' = JRef t
      \<and> length (heap w) \<le> t \<and> t < length (heap w') \<and> kind (heap w' ! t) = Plain
      \<and> trace w' = trace w @ [DecodeAudioData buff (JRef t) (JStr k)]
      \<and> scheduled_on w' t k"
    by (rule addSound_schedules)
next
  assume "addSound s args w = (Inl TypeError, w')"
  then show "trace w' = trace w"
    using addSound_fails_silently [of s args] unfolding fails_silently_def by blast
next
  assume "denotes w (arg args 0)" "''__proto__'' \<notin> set (keys w (arg args 0))"
    "sounds s args w = (Inr s', w')"
  with assms show "\<exists>t evs. get w' s' ''audioBuffers'' = JRef t
      \<and> length (heap w) \<le> t \<and> t < length (heap w') \<and> kind (heap w' ! t) = Plain
      \<and> trace w' = trace w @ evs \<and> length evs = length (keys w (arg args 0))
      \<and> (\<forall>e\<in>set evs. \<exists>buff. \<exists>k\<in>set (keys w (arg args 0)).
            e = DecodeAudioData buff (JRef t) (JStr k))
      \<and> (\<forall>k\<in>set (keys w (arg args 0)).
            (\<exists>buff. DecodeAudioData buff (JRef t) (JStr k) \<in> set evs)
            \<and> scheduled_on w' t k)"
    by (rule sounds_schedules)
next
  assume "denotes w (arg args 0)" "sounds s args w = (Inl TypeError, w')"
  with assms show "\<exists>evs. trace w' = trace w @ evs
      \<and> (evs = [] \<or> (\<exists>t. length (heap w) \<le> t \<and> t < length (heap w')
            \<and> kind (heap w' ! t) = Plain
            \<and> (\<forall>e\<in>set evs. \<exists>buff. \<exists>k\<in>set (keys w (arg args 0)).
                  e = DecodeAudioData buff (JRef t) (JStr k) \<and> scheduled_on w' t k)))"
    by (intro sounds_fails)
qed

theorem decode_callbacks_table_witness:
  "addSound (JRef 0) [JStr ''ping'', JStr ''data:audio/wav;base64,AAAA''] pong_world =
     (Inr (JRef 2), pong_world\<lparr>heap := heap pong_world @
        [Obj Plain [(''audioBuffers'', JRef 3)], Obj Plain [(''ping'', JStr ''pending'')]],
        trace := [DecodeAudioData [0, 0, 0] (JRef 3) (JStr ''ping'')]\<rparr>)
   \<and> scheduled_on (pong_world\<lparr>heap := heap pong_world @
        [Obj Plain [(''audioBuffers'', JRef 3)], Obj Plain [(''ping'', JStr ''pending'')]],
        trace := [DecodeAudioData [0, 0, 0] (JRef 3) (JStr ''ping'')]\<rparr>) 3 ''ping''
   \<and> sounds (JRef 0) [JRef 1] ping_world =
     (Inr (JRef 2), ping_world\<lparr>heap := heap ping_world @
        [Obj Plain [(''audioBuffers'', JRef 3)], Obj Plain [(''ping'', JStr ''pending'')]],
        trace := [DecodeAudioData [0, 0, 0] (JRef 3) (JStr ''ping'')]\<rparr>)
   \<and> scheduled_on (ping_world\<lparr>heap := heap ping_world @
        [Obj Plain [(''audioBuffers'', JRef 3)], Obj Plain [(''ping'', JStr ''pending'')]],
        trace := [DecodeAudioData [0, 0, 0] (JRef 3) (JStr ''ping'')]\<rparr>) 3 ''ping''"
proof -
  let ?a = "[JStr ''ping'', JStr ''data:audio/wav;base64,AAAA'']"
  let ?v' = "pong_world\<lparr>heap := heap pong_world @
        [Obj Plain [(''audioBuffers'', JRef 3)], Obj Plain [(''ping'', JStr ''pending'')]],
        trace := [DecodeAudioData [0, 0, 0] (JRef 3) (JStr ''ping'')]\<rparr>"
  let ?w' = "ping_world\<lparr>heap := heap ping_world @
        [Obj Plain [(''audioBuffers'', JRef 3)], Obj Plain [(''ping'', JStr ''pending'')]],
        trace := [DecodeAudioData [0, 0, 0] (JRef 3) (JStr ''ping'')]\<rparr>"
  have sv: "state_in pong_world (JRef 0)"
    by (simp add: state_in_def denotes_def get_def own_def pong_world_def)
  have av: "arg ?a 0 = JStr ''ping''" "''ping'' \<noteq> ''__proto__''"
    by (simp_all add: arg_def)
  have runv: "addSound (JRef 0) ?a pong_world = (Inr (JRef 2), ?v')"
    by code_simp
  from decode_callbacks_table [OF sv, of ?a "JRef 2" ?v'] av runv
  obtain tv where tv: "get ?v' (JRef 2) ''audioBuffers'' = JRef tv" and sch: "scheduled_on ?v' tv ''ping''"
    by blast
  have "get ?v' (JRef 2) ''audioBuffers'' = JRef 3"
    by (simp add: get_def own_def pong_world_def)
  with tv sch have 1: "scheduled_on ?v' 3 ''ping''" by simp
  have st: "state_in ping_world (JRef 0)"
    by (simp add: state_in_def denotes_def get_def own_def ping_world_def)
  have ar: "denotes ping_world (arg [JRef 1] 0)" "''__proto__'' \<notin> set (keys ping_world (arg [JRef 1] 0))"
    "''ping'' \<in> set (keys ping_world (arg [JRef 1] 0))"
    by (simp_all add: denotes_def arg_def ping_world_def keys_def own_def)
  have run: "sounds (JRef 0) [JRef 1] ping_world = (Inr (JRef 2), ?w')"
    by code_simp
  from decode_callbacks_table [OF st, of "[JRef 1]" "JRef 2" ?w'] ar run
  obtain t where t: "get ?w' (JRef 2) ''audioBuffers'' = JRef t" and sc: "scheduled_on ?w' t ''ping''"
    by blast
  have "get ?w' (JRef 2) ''audioBuffers'' = JRef 3"
    by (simp add: get_def own_def ping_world_def)
  with t sc have 2: "scheduled_on ?w' 3 ''ping''" by simp
  from runv 1 run 2 show ?thesis by simp
qed

lemma play_alt:
  "play value args = (let id' = arg args 0; location = arg args 1 in
     bnd (getp value ''audioBuffers'') (\<lambda>b.
     bnd (if truthy b then bnd (to_key id') (getp b) else ret b) (\<lambda>buffer.
     if playable buffer then
       bnd (getp value ''masterGain'') (\<lambda>g.
       bnd (if \<not> truthy g then add_gain value else ret value) (\<lambda>value.
       play_tail value buffer location))
     else ret value)))"
  unfolding play_def play_tail_def add_gain_def Let_def ..

lemma not_gain_event [simp]:
  "\<not> gain_event (Connect a (Node v))" "\<not> gain_event (CreateBufferSource a)"
  "\<not> gain_event (SetBuffer a v)" "\<not> gain_event (Start a v)" "\<not> gain_event (CreatePanner a)"
  "\<not> gain_event (SetPosition a x y z)" "\<not> gain_event (SetOrientation a x y z)"
  "\<not> gain_event (ConeInnerAngle a v)" "\<not> gain_event (ConeOuterAngle a v)"
  "\<not> gain_event (ConeOuterGain a v)" "\<not> gain_event (ListenerSetPosition x y z)"
  "\<not> gain_event (DecodeAudioData bs t i)" "\<not> gain_event (ConsoleLog s v)"
  "\<not> gain_event (SetGainValue a v)" "gain_event (CreateGain a)" "gain_event (Connect a Destination)"
  by (simp_all add: gain_event_def)

lemma benign_guard:
  "benign f Q \<Longrightarrow> benign (\<lambda>w. if \<not> audioContext w then (Inl TypeError, w) else f w) Q"
  unfolding benign_def
proof (intro allI impI)
  fix w r w'
  assume f: "\<forall>w r w'. f w = (r, w') \<longrightarrow>
       (\<exists>extra es. w' = w\<lparr>heap := heap w @ extra, trace := trace w @ es\<rparr> \<and> (\<forall>e\<in>set es. \<not> gain_event e)) \<and>
       (\<forall>x. r = Inr x \<longrightarrow> Q x)"
    and run: "(if \<not> audioContext w then (Inl TypeError, w) else f w) = (r, w')"
  show "(\<exists>extra es. w' = w\<lparr>heap := heap w @ extra, trace := trace w @ es\<rparr> \<and> (\<forall>e\<in>set es. \<not> gain_event e)) \<and>
       (\<forall>x. r = Inr x \<longrightarrow> Q x)"
  proof (cases "audioContext w")
    case True
    then show ?thesis using f run by simp
  next
    case False
    then have "w' = w\<lparr>heap := heap w @ [], trace := trace w @ []\<rparr> \<and> (\<forall>e\<in>set []. \<not> gain_event e)" "r = Inl TypeError"
      using run by simp_all
    then show ?thesis by blast
  qed
qed

lemma benign_top: "benign f Q \<Longrightarrow> benign f (\<lambda>x. True)"
  by (erule benign_weaken) simp

lemma benign_createBufferSource: "benign createBufferSource (\<lambda>x. True)"
proof -
  have "benign (\<lambda>w. if \<not> audioContext w then (Inl TypeError, w) else
     bnd (new_object BufferSourceNode) (\<lambda>audioSource.
     bnd (emit (CreateBufferSource (length (heap w)))) (\<lambda>_.
     ret audioSource)) w) (\<lambda>x. True)"
    by (rule benign_world, rule benign_guard)
      (intro benign_bnd [of _ "\<lambda>x. True"] benign_new_object benign_emit benign_ret; simp)
  then show ?thesis
    by (simp add: createBufferSource_def [abs_def])
qed

lemma benign_createPanner: "benign createPanner (\<lambda>x. True)"
proof -
  have "benign (\<lambda>w. if \<not> audioContext w then (Inl TypeError, w) else
     bnd (new_object PannerNode) (\<lambda>panner.
     bnd (emit (CreatePanner (length (heap w)))) (\<lambda>_.
     ret panner)) w) (\<lambda>x. True)"
    by (rule benign_world, rule benign_guard)
      (intro benign_bnd [of _ "\<lambda>x. True"] benign_new_object benign_emit benign_ret; simp)
  then show ?thesis
    by (simp add: createPanner_def [abs_def])
qed

lemma benign_set_buffer: "benign (set_buffer a b) (\<lambda>x. True)"
  unfolding set_buffer_def
  by (cases a) (simp_all add: benign_throw benign_emit)

lemma benign_connect_node: "benign (connect n (Node v)) (\<lambda>x. True)"
  unfolding connect_def
  by (intro benign_bnd [of _ "\<lambda>x. True"] benign_call_method benign_emit) simp

lemma benign_location_of: "benign (location_of v i) (\<lambda>x. True)"
  unfolding location_of_def
  by (intro benign_bnd [of _ "\<lambda>x. True"] benign_getp benign_to_key)

lemma benign_panner_of: "benign (panner_of v i) (\<lambda>x. True)"
  unfolding panner_of_def
  by (intro benign_bnd [of _ "\<lambda>x. True"] benign_getp benign_to_key benign_if benign_ret) simp

lemma benign_play_tail: "benign (play_tail v buffer location) (\<lambda>x. x = v)"
  unfolding play_tail_def
  apply (rule benign_bnd [OF benign_createBufferSource])
  apply (rule benign_bnd [OF benign_set_buffer])
  apply (rule benign_bnd [of _ "\<lambda>x. True"])
   apply (intro benign_if benign_bnd [of _ "\<lambda>x. True"] benign_getp benign_to_key benign_ret; simp)
  apply (rule benign_bnd [of _ "\<lambda>x. True"])
   apply (intro benign_if benign_bnd [of _ "\<lambda>x. True"] benign_getp benign_location_of
      benign_connect_node; simp)
  apply (rule benign_bnd [OF benign_call_method])
  apply (rule benign_bnd [of _ "\<lambda>x. True"])
   apply (rule benign_emit, simp)
  apply (rule benign_ret, simp)
  done

lemma benign_listenAt: "benign (listenAt s args) (\<lambda>x. x = s)"
  unfolding listenAt_def Let_def
  apply (rule benign_bnd [of _ "\<lambda>x. True"])
   apply (rule benign_guard, rule benign_emit, simp)
  apply (rule benign_ret, simp)
  done

lemma benign_orient: "benign (orient s args) (\<lambda>x. x = s)"
  unfolding orient_def Let_def
  apply (rule benign_bnd [OF benign_panner_of])
  apply (rule benign_bnd [of _ "\<lambda>x. True"])
   apply (intro benign_if benign_bnd [of _ "\<lambda>x. True"] benign_panner_of benign_call_method
      benign_emit benign_ret; simp)
  apply (rule benign_ret, simp)
  done

lemma benign_cone: "benign (cone s args) (\<lambda>x. x = s)"
  unfolding cone_def Let_def
  apply (rule benign_bnd [OF benign_panner_of])
  apply (rule benign_bnd [of _ "\<lambda>x. True"])
   apply (intro benign_if benign_bnd [of _ "\<lambda>x. True"] benign_panner_of benign_call_method
      benign_emit benign_ret; simp)
  apply (rule benign_ret, simp)
  done

lemma add_gain_alt: "add_gain = with_gain JUndefined"
  by (rule ext) (simp add: add_gain_def with_gain_def)

lemma masterGain_alt: "masterGain value args = with_gain (arg args 0) value"
  by (simp add: masterGain_def with_gain_def)

lemma createMasterGain_cw:
  "createMasterGain vol (clone_world w F new es) =
    (if audioContext w
     then (Inr (JRef (Suc (length (heap w) + length new))),
           clone_world w F (new @ [Obj GainNode []])
             (es @ [CreateGain (Suc (length (heap w) + length new)),
                    SetGainValue (Suc (length (heap w) + length new)) (or_default vol (JNum 1)),
                    Connect (Suc (length (heap w) + length new)) Destination]))
     else (Inl TypeError, clone_world w F new es))"
  by (simp add: createMasterGain_def createGain_def connect_def call_method_def has_method_def
      bnd_def ret_def nth_append)

text \<open>What cloning a state and storing a new master gain in the clone leaves.\<close>

lemma with_gain_spec:
  assumes run: "with_gain vol s w = (Inr v, W1)" and s: "state_in w s"
  shows "\<exists>F new j. v = JRef (length (heap w))
    \<and> W1 = clone_world w F new [CreateGain (Suc (length (heap w) + j)),
              SetGainValue (Suc (length (heap w) + j)) (or_default vol (JNum 1)),
              Connect (Suc (length (heap w) + j)) Destination]
    \<and> shape w s (\<lambda>f. {}) F new
    \<and> map_of F ''masterGain'' = Some (JRef (Suc (length (heap w) + j)))
    \<and> j < length new \<and> kind (new ! j) = GainNode"
proof -
  let ?n = "length (heap w)"
  from after_clone [OF run [unfolded with_gain_def] s] obtain F new where
    sh: "shape w s (\<lambda>f. {}) F new"
    and rest: "bnd (createMasterGain vol) (\<lambda>g.
       bnd (setp (JRef ?n) ''masterGain'' g) (\<lambda>_. ret (JRef ?n))) (clone_world w F new []) = (Inr v, W1)"
    by blast
  let ?j = "length new"
  let ?g = "Suc (?n + ?j)"
  let ?new = "new @ [Obj GainNode []]"
  let ?es = "[CreateGain ?g, SetGainValue ?g (or_default vol (JNum 1)), Connect ?g Destination]"
  let ?F = "AList.update ''masterGain'' (JRef ?g) F"
  have ctx: "audioContext w"
    using rest by (cases "audioContext w") (simp_all add: bnd_def createMasterGain_cw)
  have mk: "createMasterGain vol (clone_world w F new []) = (Inr (JRef ?g), clone_world w F ?new ([] @ ?es))"
    using ctx by (simp add: createMasterGain_cw)
  have "bnd (setp (JRef ?n) ''masterGain'' (JRef ?g)) (\<lambda>_. ret (JRef ?n)) (clone_world w F ?new ([] @ ?es))
      = (Inr v, W1)"
    using bnd_step [OF rest mk] .
  then have res: "v = JRef ?n" "W1 = clone_world w ?F ?new ?es"
    by (simp_all add: bnd_def ret_def)
  have "shape w s (\<lambda>f. {}) (AList.update ''masterGain'' (JRef (length (heap w) + 1 + ?j)) F) ?new"
    by (rule shape_new_gain [OF shape_append [OF sh]]) simp_all
  then have "shape w s (\<lambda>f. {}) ?F ?new" by simp
  moreover have "map_of ?F ''masterGain'' = Some (JRef ?g) \<and> ?j < length ?new \<and> kind (?new ! ?j) = GainNode"
    by (simp add: update_conv')
  ultimately show ?thesis
    using res by (intro exI [of _ ?F] exI [of _ ?new] exI [of _ ?j]) blast
qed

lemma benignD:
  assumes "benign f Q" "f w = (r, w')"
  shows "(\<exists>extra es. w' = w\<lparr>heap := heap w @ extra, trace := trace w @ es\<rparr>
            \<and> (\<forall>e\<in>set es. \<not> gain_event e))
       \<and> (\<forall>x. r = Inr x \<longrightarrow> Q x)"
  using assms unfolding benign_def by blast

lemma to_key_same: "to_key v w = (fst (to_key v w), w)"
  by (cases "to_key v w") (auto dest: to_key_world)

lemma found_buffer_world: "found_buffer v i w = (r, w') \<Longrightarrow> w' = w"
  unfolding found_buffer_def
  by (auto elim!: bndE dest!: getp_world to_key_world simp: ret_def split: if_splits)

lemma play_found:
  "play value args = bnd (found_buffer value (arg args 0)) (\<lambda>buffer.
     if playable buffer then
       bnd (getp value ''masterGain'') (\<lambda>g.
       bnd (if \<not> truthy g then add_gain value else ret value) (\<lambda>value.
       play_tail value buffer (arg args 1)))
     else ret value)"
  unfolding play_alt found_buffer_def Let_def by (simp add: bnd_assoc)

text \<open>With a master gain in the state, \<open>play\<close> returns the state and makes no gain node.\<close>

lemma play_with_gain:
  assumes g: "truthy (get w s ''masterGain'')" and run: "play s args w = (r, w')"
  shows "(\<exists>extra es. w' = w\<lparr>heap := heap w @ extra, trace := trace w @ es\<rparr>
            \<and> (\<forall>e\<in>set es. \<not> gain_event e))
       \<and> (\<forall>x. r = Inr x \<longrightarrow> x = s)"
proof -
  have same: "(\<exists>extra es. w = w\<lparr>heap := heap w @ extra, trace := trace w @ es\<rparr>
            \<and> (\<forall>e\<in>set es. \<not> gain_event e))"
    by (intro exI [of _ "[]"]) simp
  from run [unfolded play_found] show ?thesis
  proof (cases rule: bndE)
    case (throws e)
    then have "w' = w" by (auto dest: found_buffer_world)
    with throws same show ?thesis by simp
  next
    case (returns buffer w1)
    then have w1: "w1 = w" by (auto dest: found_buffer_world)
    show ?thesis
    proof (cases "playable buffer")
      case False
      with returns(2) have "r = Inr s" "w' = w1" by (simp_all add: ret_def)
      with w1 same show ?thesis by simp
    next
      case True
      have nn: "\<not> nullish s"
        using returns(1) by (auto simp: found_buffer_def bnd_def getp_def split: if_splits)
      have "play_tail s buffer (arg args 1) w = (r, w')"
        using returns(2) True w1 nn g by (simp add: bnd_def getp_def ret_def)
      from benignD [OF benign_play_tail this] show ?thesis .
    qed
  qed
qed

lemma bnd_ret_left: "bnd (ret x) f = f x"
  by (rule ext) (simp add: bnd_def ret_def)

lemma setAudioBuffers_alt:
  "setAudioBuffers value args =
     bnd (cloneData value) (\<lambda>newValue.
     bnd (shallowCopy (arg args 0)) (\<lambda>copyBuffers.
     bnd (setp newValue ''audioBuffers'' copyBuffers) (\<lambda>_.
     ret newValue)))"
  by (simp add: setAudioBuffers_def shallowCopy_def bnd_assoc bnd_ret_left Let_def)

text \<open>What \<open>setAudioBuffers\<close> leaves when it returns.\<close>

lemma setAudioBuffers_spec:
  assumes run: "setAudioBuffers s args w = (Inr s', w')" and s: "state_in w s"
    and a: "denotes w (arg args 0)"
  shows "\<exists>F new j. s' = JRef (length (heap w)) \<and> w' = clone_world w F new []
    \<and> shape w s ((\<lambda>f. {})(''audioBuffers'' := UNIV)) F new
    \<and> map_of F ''audioBuffers'' = Some (JRef (Suc (length (heap w) + j))) \<and> j < length new
    \<and> map_of (props (new ! j)) = map_of (own w (arg args 0))"
proof -
  let ?n = "length (heap w)"
  let ?src = "arg args 0"
  from after_clone [OF run [unfolded setAudioBuffers_alt] s] obtain F new where
    sh: "shape w s (\<lambda>f. {}) F new"
    and rest: "bnd (shallowCopy ?src) (\<lambda>copyBuffers.
       bnd (setp (JRef ?n) ''audioBuffers'' copyBuffers) (\<lambda>_. ret (JRef ?n)))
         (clone_world w F new []) = (Inr s', w')"
    by blast
  let ?W = "clone_world w F new []"
  from rest obtain cb W1 where cp: "shallowCopy ?src ?W = (Inr cb, W1)"
    and rest1: "bnd (setp (JRef ?n) ''audioBuffers'' cb) (\<lambda>_. ret (JRef ?n)) W1 = (Inr s', w')"
    by (rule bnd_InrD)
  have den: "denotes ?W ?src"
    using a by (cases ?src) (simp_all add: denotes_def)
  from shallowCopy_spec [OF cp den] obtain P where
    W1: "W1 = ?W\<lparr>heap := heap ?W @ [Obj Plain P]\<rparr>"
    and cb: "cb = JRef (length (heap ?W))" and P: "map_of P = map_of (own ?W ?src)"
    by auto
  let ?j = "length new"
  let ?new = "new @ [Obj Plain P]"
  let ?F = "AList.update ''audioBuffers'' (JRef (Suc (?n + ?j))) F"
  have W1': "W1 = clone_world w F ?new []"
    unfolding W1 by (simp add: clone_world_def)
  have cb': "cb = JRef (Suc (?n + ?j))" using cb by simp
  have P': "map_of P = map_of (own w ?src)" using P a by simp
  from rest1 have res: "s' = JRef ?n" "w' = clone_world w ?F ?new []"
    unfolding W1' cb' by (simp_all add: bnd_def ret_def)
  have "shape w s ((\<lambda>f. {})(''audioBuffers'' := UNIV))
      (AList.update ''audioBuffers'' (JRef (length (heap w) + 1 + ?j)) F) ?new"
  proof (rule shape_new_table [OF shape_append [OF sh]])
    show "''audioBuffers'' \<in> sub_fields" by (simp add: sub_fields_def)
    show "?j < length ?new" by simp
    show "kind (?new ! ?j) = Plain" by simp
    show "\<And>g. g \<in> sub_fields \<Longrightarrow> map_of F g \<noteq> Some (JRef (length (heap w) + 1 + ?j))"
      by (rule shape_unused_fresh [OF sh]) simp_all
  qed simp
  then have "shape w s ((\<lambda>f. {})(''audioBuffers'' := UNIV)) ?F ?new" by simp
  moreover have "map_of ?F ''audioBuffers'' = Some (JRef (Suc (?n + ?j))) \<and> ?j < length ?new
      \<and> map_of (props (?new ! ?j)) = map_of (own w ?src)"
    using P' by (simp add: update_conv')
  ultimately show ?thesis
    using res by (intro exI [of _ ?F] exI [of _ ?new] exI [of _ ?j]) blast
qed

text \<open>
  \<open>play\<close> of a sound that can be played, on a state with no master gain: the state is
  cloned, one gain node is made, connected to the destination and stored in the clone, and
  the rest of \<open>play\<close> makes no other.
\<close>

lemma play_adds_gain:
  assumes s: "state_in w s" and g: "\<not> truthy (get w s ''masterGain'')"
    and k: "arg args 0 = JStr k"
    and e: "map_of (own w (get w s ''audioBuffers'')) k = Some buffer"
    and p: "playable buffer"
    and run: "play s args w = (Inr s', w')"
  shows "\<exists>F new es j. s' = JRef (length (heap w)) \<and> w' = clone_world w F new es
    \<and> shape w s (\<lambda>f. {}) F new
    \<and> map_of F ''masterGain'' = Some (JRef (Suc (length (heap w) + j)))
    \<and> j < length new \<and> kind (new ! j) = GainNode
    \<and> filter gain_event es = [CreateGain (Suc (length (heap w) + j)),
                               Connect (Suc (length (heap w) + j)) Destination]"
proof -
  let ?n = "length (heap w)"
  let ?buffer = "buffer"
  have b: "truthy (get w s ''audioBuffers'')"
    using e by (cases "get w s ''audioBuffers''") (auto simp: own_def)
  have nn: "\<not> nullish s"
    using b by (auto simp: nullish_def get_def own_def)
  have fb: "found_buffer s (arg args 0) w = (Inr ?buffer, w)"
    using nn b k e by (simp add: found_buffer_def bnd_def getp_field getp_own to_key_def)
  have "bnd (add_gain s) (\<lambda>value. play_tail value ?buffer (arg args 1)) w = (Inr s', w')"
    using bnd_step [OF run [unfolded play_found] fb] p g nn
    by (simp add: bnd_def getp_def)
  then obtain v W1 where ag: "with_gain JUndefined s w = (Inr v, W1)"
    and tail: "play_tail v ?buffer (arg args 1) W1 = (Inr s', w')"
    unfolding add_gain_alt by (rule bnd_InrD)
  from with_gain_spec [OF ag s] obtain F new j where
    v: "v = JRef ?n"
    and W1: "W1 = clone_world w F new [CreateGain (Suc (?n + j)),
              SetGainValue (Suc (?n + j)) (or_default JUndefined (JNum 1)),
              Connect (Suc (?n + j)) Destination]"
    and sh: "shape w s (\<lambda>f. {}) F new"
    and mg: "map_of F ''masterGain'' = Some (JRef (Suc (?n + j)))"
    and j: "j < length new" "kind (new ! j) = GainNode"
    by blast
  let ?es0 = "[CreateGain (Suc (?n + j)), SetGainValue (Suc (?n + j)) (or_default JUndefined (JNum 1)),
              Connect (Suc (?n + j)) Destination]"
  from benignD [OF benign_play_tail tail] obtain extra es where
    w': "w' = W1\<lparr>heap := heap W1 @ extra, trace := trace W1 @ es\<rparr>"
    and es: "\<forall>e\<in>set es. \<not> gain_event e" and s': "s' = v"
    by blast
  have w'': "w' = clone_world w F (new @ extra) (?es0 @ es)"
    unfolding w' W1 by (simp add: clone_world_def)
  have f: "filter gain_event (?es0 @ es) = [CreateGain (Suc (?n + j)), Connect (Suc (?n + j)) Destination]"
    using es by (simp add: gain_event_def)
  have "j < length (new @ extra) \<and> kind ((new @ extra) ! j) = GainNode"
    using j by (simp add: nth_append)
  with shape_append [OF sh, of extra] mg f w'' s' v show ?thesis
    by (intro exI [of _ F] exI [of _ "new @ extra"] exI [of _ "?es0 @ es"] exI [of _ j]) blast
qed

section \<open>The master gain that play makes\<close>

text \<open>
  Claim C6. In a world where the state and its sub-mappings denote objects, for a state
  with no \<open>masterGain\<close> whose buffer table has, under a string identifier, an own entry that
  can be played: when \<open>play\<close> returns, the state it returns is a new clone of the state it
  was given; of the engine calls it has made, one is the creation of a gain node and one a
  connection to the destination, that of the same node \<open>g\<close>, which is a new object; the
  clone's \<open>masterGain\<close> is \<open>g\<close>; and in every world in which the clone has that field, a
  later \<open>play\<close> of the clone makes no gain node, connects nothing to the destination and
  returns the clone itself.
\<close>

theorem play_lazy_master_gain:
  assumes "state_in w s" and "\<not> truthy (get w s ''masterGain'')"
    and "arg args 0 = JStr k"
    and "map_of (own w (get w s ''audioBuffers'')) k = Some buffer" and "playable buffer"
    and "play s args w = (Inr s', w')"
  shows "\<exists>g es. fresh_clone w s w' s' (\<lambda>f. {})
    \<and> trace w' = trace w @ es
    \<and> filter gain_event es = [CreateGain g, Connect g Destination]
    \<and> get w' s' ''masterGain'' = JRef g
    \<and> length (heap w) \<le> g \<and> g < length (heap w') \<and> kind (heap w' ! g) = GainNode
    \<and> (\<forall>w2 args2 r w3. get w2 s' ''masterGain'' = JRef g \<longrightarrow> play s' args2 w2 = (r, w3)
          \<longrightarrow> r \<noteq> Inl Unmodelled
          \<longrightarrow> (\<exists>es2. trace w3 = trace w2 @ es2 \<and> filter gain_event es2 = [])
              \<and> (\<forall>x. r = Inr x \<longrightarrow> x = s'))"
proof -
  let ?n = "length (heap w)"
  from play_adds_gain [OF assms] obtain F new es j where
    s': "s' = JRef ?n" and w': "w' = clone_world w F new es"
    and sh: "shape w s (\<lambda>f. {}) F new"
    and mg: "map_of F ''masterGain'' = Some (JRef (Suc (?n + j)))"
    and j: "j < length new" "kind (new ! j) = GainNode"
    and ev: "filter gain_event es = [CreateGain (Suc (?n + j)), Connect (Suc (?n + j)) Destination]"
    by blast
  let ?g = "Suc (?n + j)"
  have 1: "fresh_clone w s w' s' (\<lambda>f. {})"
    unfolding s' w' using sh by (rule fresh_cloneI)
  have 2: "trace w' = trace w @ es" by (simp add: w')
  have 3: "get w' s' ''masterGain'' = JRef ?g"
    using mg by (simp add: s' w' get_clone)
  have 4: "?n \<le> ?g \<and> ?g < length (heap w') \<and> kind (heap w' ! ?g) = GainNode"
    using j by (simp add: w' nth_append)
  have 5: "(\<exists>es2. trace w3 = trace w2 @ es2 \<and> filter gain_event es2 = [])
      \<and> (\<forall>x. r = Inr x \<longrightarrow> x = s')"
    if "get w2 s' ''masterGain'' = JRef ?g" "play s' args2 w2 = (r, w3)" for w2 args2 r w3
  proof -
    have "truthy (get w2 s' ''masterGain'')" using that(1) by simp
    from play_with_gain [OF this that(2)] obtain extra es2 where
      "w3 = w2\<lparr>heap := heap w2 @ extra, trace := trace w2 @ es2\<rparr>" "\<forall>e\<in>set es2. \<not> gain_event e"
      and same: "\<forall>x. r = Inr x \<longrightarrow> x = s'"
      by blast
    then have "trace w3 = trace w2 @ es2 \<and> filter gain_event es2 = []"
      by (simp add: filter_empty_conv)
    with same show ?thesis by blast
  qed
  from 1 2 ev 3 4 5 show ?thesis
    by (intro exI [of _ ?g] exI [of _ es]) blast
qed

theorem play_lazy_master_gain_witness:
  "play (JRef 0) [JStr ''ping''] gain_world = (Inr (JRef 3), gain_played)
   \<and> (\<exists>g. filter gain_event (trace gain_played) = [CreateGain g, Connect g Destination]
        \<and> get gain_played (JRef 3) ''masterGain'' = JRef g
        \<and> kind (heap gain_played ! g) = GainNode
        \<and> (\<forall>r w3. play (JRef 3) [JStr ''ping''] gain_played = (r, w3) \<longrightarrow> r \<noteq> Inl Unmodelled
              \<longrightarrow> (\<exists>es2. trace w3 = trace gain_played @ es2 \<and> filter gain_event es2 = [])))"
proof -
  have st: "state_in gain_world (JRef 0)"
    by (simp add: state_in_def denotes_def get_def own_def gain_world_def)
  have ng: "\<not> truthy (get gain_world (JRef 0) ''masterGain'')"
    by (simp add: get_def own_def gain_world_def)
  have ar: "arg [JStr ''ping''] 0 = JStr ''ping''"
    by (simp add: arg_def)
  have en: "map_of (own gain_world (get gain_world (JRef 0) ''audioBuffers'')) ''ping'' = Some (JRef 2)"
    by (simp add: get_def own_def gain_world_def)
  have pl: "playable (JRef 2)"
    by (simp add: playable_def)
  have run: "play (JRef 0) [JStr ''ping''] gain_world = (Inr (JRef 3), gain_played)"
    by code_simp
  from play_lazy_master_gain [OF st ng ar en pl run] obtain g es where
    1: "trace gain_played = trace gain_world @ es"
    and 2: "filter gain_event es = [CreateGain g, Connect g Destination]"
    and 3: "get gain_played (JRef 3) ''masterGain'' = JRef g"
    and 4: "kind (heap gain_played ! g) = GainNode"
    and 5: "\<forall>w2 args2 r w3. get w2 (JRef 3) ''masterGain'' = JRef g
          \<longrightarrow> play (JRef 3) args2 w2 = (r, w3) \<longrightarrow> r \<noteq> Inl Unmodelled
          \<longrightarrow> (\<exists>es2. trace w3 = trace w2 @ es2 \<and> filter gain_event es2 = [])
              \<and> (\<forall>x. r = Inr x \<longrightarrow> x = JRef 3)"
    by blast
  have "trace gain_world = []" by (simp add: gain_world_def)
  with 1 2 have 6: "filter gain_event (trace gain_played) = [CreateGain g, Connect g Destination]"
    by simp
  have 7: "\<forall>r w3. play (JRef 3) [JStr ''ping''] gain_played = (r, w3) \<longrightarrow> r \<noteq> Inl Unmodelled
            \<longrightarrow> (\<exists>es2. trace w3 = trace gain_played @ es2 \<and> filter gain_event es2 = [])"
    using 5 3 by blast
  from run 6 3 4 7 show ?thesis by blast
qed

section \<open>Playing a sound that is not there\<close>

text \<open>
  Claim C3. For a state that is neither \<open>undefined\<close> nor \<open>null\<close> (no other value reaches an
  operation) and an identifier that is a string: when the state has no \<open>audioBuffers\<close>, or
  its \<open>audioBuffers\<close> is a plain object in which the identifier has no entry, own or
  inherited, or has an own entry that is \<open>'pending'\<close>, \<open>'failed'\<close> or falsy, \<open>play\<close> throws
  nothing, returns the very state it was given and leaves the world as it was: no engine
  call is made and no object is made or written.
\<close>

theorem play_without_buffer:
  assumes "\<not> nullish s"
    and "\<not> truthy (get w s ''audioBuffers'') \<or>
         (\<exists>t. get w s ''audioBuffers'' = JRef t \<and> t < length (heap w) \<and> kind (heap w ! t) = Plain
            \<and> arg args 0 = JStr k
            \<and> (case map_of (props (heap w ! t)) k of
                 None \<Rightarrow> k \<notin> set object_members
               | Some v \<Rightarrow> \<not> playable v))"
  shows "play s args w = (Inr s, w)"
  using assms
  by (auto simp: play_def Let_def bnd_def getp_def ret_def playable_def nullish_def to_key_def
      get_def own_def inherits_def kind_at_def state_fields_def split: option.splits)

theorem play_without_buffer_witness:
  "play (JRef 0) [JStr ''ping'', JStr ''here'']
     (empty_world\<lparr>heap := [Obj Plain [(''audioBuffers'', JRef 1)],
                            Obj Plain [(''ping'', JStr ''pending'')]]\<rparr>)
   = (Inr (JRef 0),
      empty_world\<lparr>heap := [Obj Plain [(''audioBuffers'', JRef 1)],
                            Obj Plain [(''ping'', JStr ''pending'')]]\<rparr>)"
  using play_without_buffer [of "JRef 0"
      "empty_world\<lparr>heap := [Obj Plain [(''audioBuffers'', JRef 1)],
                            Obj Plain [(''ping'', JStr ''pending'')]]\<rparr>"
      "[JStr ''ping'', JStr ''here'']" "''ping''"]
  by (simp add: nullish_def get_def own_def empty_world_def arg_def playable_def)

section \<open>Adding a sound to the empty state\<close>

text \<open>
  Claim C4. On the empty state \<open>{}\<close>, which has no \<open>audioBuffers\<close>,
  \<open>addSound(state, "ping", "data:audio/wav;base64,AAAA")\<close> throws a \<open>TypeError\<close> at
  \<open>audioBuffers[id] = 'pending'\<close>: the clone has no buffer table, and unlike \<open>sounds\<close>
  the function makes none. No state is returned and no decode is scheduled.
\<close>

theorem addSound_empty_state:
  "addSound (JRef 0) [JStr ''ping'', JStr ''data:audio/wav;base64,AAAA''] empty_world
   = (Inl TypeError, empty_world\<lparr>heap := [Obj Plain [], Obj Plain []]\<rparr>)"
  by (simp add: addSound_def Let_def arg_def cloneData_def bnd_def new_object_def getp_def
      nullish_def get_def own_def ret_def empty_world_def to_key_def setp_def)

end
